theory Spec2Isabelle
  imports Main "HOL-Library.Word"
begin

unbundle bit_operations_syntax

section \<open>The transaction set of lib/rpmts.cc\<close>

text \<open>
  A shallow embedding of the transaction-set core. One transaction set object is
  modelled by the record \<open>rpmts_s\<close>; a pointer \<open>rpmts\<close> is an \<open>rpmts_s option\<close>
  with \<open>None\<close> for \<open>NULL\<close>. What the functions do outside the object (the signal
  mask of the thread, calls into the lock, the database, the keystore, the log and
  the change callback) is recorded in the record \<open>world\<close>. What the collaborators
  outside this file answer (the OS lock, the database layer, the keystore backend,
  macro expansion) is read from the record \<open>extern\<close>.
\<close>

subsection \<open>Types of the public headers\<close>

datatype rpmRC = RPMRC_OK | RPMRC_NOTFOUND | RPMRC_FAIL | RPMRC_NOTTRUSTED | RPMRC_NOKEY

text \<open>The flag sets are 32-bit masks. \<open>time_t\<close> is the 64-bit type of the C library
  (\<open>(time_t)-1\<close> is the word of all ones); the transaction id is a 32-bit unsigned.\<close>

type_synonym rpmVSFlags = "32 word"
type_synonym rpmtransFlags = "32 word"
type_synonym rpmElementTypes = "32 word"
type_synonym time_t = "64 word"
type_synonym rpm_tid_t = "32 word"

text \<open>The two transaction modes of \<open>rpmtxnFlags\<close>: \<open>flags & RPMTXN_WRITE\<close> is non-zero
  exactly for \<open>RPMTXN_WRITE\<close>.\<close>

datatype rpmtxnFlags = RPMTXN_READ | RPMTXN_WRITE

datatype lockmode = RPMLOCK_READ | RPMLOCK_WRITE

datatype rpmtsEvent = RPMTS_EVENT_ADD | RPMTS_EVENT_DEL

datatype rpmDbiTagVal = RPMDBI_PACKAGES | RPMDBI_LABEL | RPMTAG nat

datatype signal = SIGHUP | SIGINT | SIGQUIT | SIGPIPE | SIGTERM | SIGCHLD

text \<open>Modelled from the spec: the flag bits tested by this file are declared in the
  public header rpmts.h, which is not part of the sources at hand. The test-mode
  transaction flag and the "no header check" verification flag are single bits; the
  "no signatures" mask is the set of all signature-verification bits.\<close>

definition RPMTRANS_FLAG_TEST :: rpmtransFlags where
  "RPMTRANS_FLAG_TEST = 1"

definition RPMVSF_NOHDRCHK :: rpmVSFlags where
  "RPMVSF_NOHDRCHK = 1"

definition RPMVSF_MASK_NOSIGNATURES :: rpmVSFlags where
  "RPMVSF_MASK_NOSIGNATURES = push_bit 10 1 OR push_bit 11 1 OR push_bit 18 1 OR push_bit 19 1"

definition RPMDB_REBUILD_FLAG_SALVAGE :: int where
  "RPMDB_REBUILD_FLAG_SALVAGE = 1"

subsection \<open>Elements, keys and the keyring\<close>

text \<open>A transaction element: its identity and the type mask \<open>rpmteType\<close> reads.\<close>

record rpmte_s =
  teKey :: nat
  teType :: rpmElementTypes

definition rpmteType :: "rpmte_s \<Rightarrow> rpmElementTypes" where
  "rpmteType te = teType te"

text \<open>Modelled from the spec: the public key object and the in-memory keyring live in
  rpmkeyring.cc, which is not part of the sources at hand. A key is identified by its
  fingerprint and carries key material (packets); the keyring is looked up by
  fingerprint.\<close>

record rpmPubkey_s =
  fingerprint :: string
  material :: "nat list"

type_synonym rpmKeyring = "string \<rightharpoonup> rpmPubkey_s"

datatype rpmKeyringModifyMode = RPMKEYRING_ADD | RPMKEYRING_DELETE | RPMKEYRING_REPLACE

datatype keystore = keystore_fs | keystore_rpmdb

subsection \<open>The transaction set\<close>

record tsMembers_s =
  pool :: "nat option"
  order :: "rpmte_s list"
  removedPackages :: "nat list"
  addedPackages :: "nat option"
  rpmlib :: "nat option"

record rpmts_s =
  rdb :: "nat option"
  dbmode :: int
  rootDir :: "string option"
  lockPath :: "string option"
  lock :: "nat option"
  keyring :: "rpmKeyring option"
  keystore :: "keystore option"
  vsflags :: rpmVSFlags
  transFlags :: rpmtransFlags
  overrideTime :: time_t
  tid :: rpm_tid_t
  change :: "(rpmtsEvent \<Rightarrow> rpmte_s \<Rightarrow> rpmte_s option \<Rightarrow> int) option"
  members :: tsMembers_s
  nrefs :: int

text \<open>Calls that leave the object, in the order they happen.\<close>

datatype effect =
    LockAcquire lockmode
  | LockRelease
  | DbOpen int
  | DbClose
  | DbRebuild bool int
  | DbInitIterator rpmDbiTagVal "string option" nat
  | DbSetHdrChk
  | KeystoreLoad
  | KeystoreImport rpmPubkey_s int
  | KeystoreDelete rpmPubkey_s
  | Change rpmtsEvent rpmte_s
  | TeFree rpmte_s
  | PoolFree nat
  | Mkpath string
  | Log string

record world =
  sigmask :: "signal set"
  sigsaved :: "signal set list"
  trace :: "effect list"

definition emit :: "effect \<Rightarrow> world \<Rightarrow> world" where
  "emit e w = w\<lparr>trace := trace w @ [e]\<rparr>"

text \<open>The answers of the collaborators that are not part of this file. The \<open>Free\<close>
  functions of the string pool, the added-package index and the dependency set take
  the caller's reference and answer with the pointer the caller stores back.
  \<open>xmalloc_bytes n\<close> is what a block of \<open>n\<close> bytes fresh from the allocator happens to
  hold: nothing initialises it.\<close>

record extern =
  rpmlockNew :: "string option \<Rightarrow> nat option"
  rpmlockAcquire :: "nat option \<Rightarrow> lockmode \<Rightarrow> bool"
  rpmdbOpen :: "string option \<Rightarrow> int \<Rightarrow> int \<times> nat option"
  rpmdbClose :: "nat \<Rightarrow> int"
  rpmdbRebuild :: "string option \<Rightarrow> bool \<Rightarrow> int \<Rightarrow> int"
  rpmdbInitIterator :: "nat option \<Rightarrow> rpmDbiTagVal \<Rightarrow> string option \<Rightarrow> nat \<Rightarrow> nat option"
  rpmExpand :: "string \<Rightarrow> string"
  rpmExpandNumeric :: "string \<Rightarrow> int"
  rpmGetPath :: "string \<Rightarrow> string"
  rpmGenPath :: "string \<Rightarrow> string \<Rightarrow> string option"
  rpmChrootDone :: bool
  LOCALSTATEDIR :: string
  load_keys :: "keystore \<Rightarrow> rpmKeyring \<Rightarrow> rpmKeyring"
  import_key :: "keystore \<Rightarrow> rpmPubkey_s \<Rightarrow> int \<Rightarrow> rpmRC"
  delete_key :: "keystore \<Rightarrow> rpmPubkey_s \<Rightarrow> rpmRC"
  pgpPubKeyLint :: "nat list \<Rightarrow> rpmRC \<times> string option"
  rpmPubkeyNew :: "nat list \<Rightarrow> rpmPubkey_s option"
  rpmstrPoolCreate :: nat
  rpmstrPoolFree :: "nat option \<Rightarrow> nat option"
  rpmalFree :: "nat option \<Rightarrow> nat option"
  rpmdsFree :: "nat option \<Rightarrow> nat option"
  rpmIsNormal :: bool
  xmalloc_bytes :: "nat \<Rightarrow> string"

subsection \<open>Reference counting and the database binding\<close>

definition rpmtsLink :: "rpmts_s \<Rightarrow> rpmts_s" where
  "rpmtsLink ts = ts\<lparr>nrefs := nrefs ts + 1\<rparr>"

text \<open>The operation counters that \<open>rpmtsCloseDB\<close> adds up are not part of this
  model.\<close>

definition rpmtsCloseDB :: "extern \<Rightarrow> world \<Rightarrow> rpmts_s \<Rightarrow> int \<times> world \<times> rpmts_s" where
  "rpmtsCloseDB ex w ts =
     (case rdb ts of
        None \<Rightarrow> (0, w, ts)
      | Some db \<Rightarrow> (rpmdbClose ex db, emit DbClose w, ts\<lparr>rdb := None\<rparr>))"

definition rpmtsOpenDB :: "extern \<Rightarrow> world \<Rightarrow> rpmts_s \<Rightarrow> int \<Rightarrow> int \<times> world \<times> rpmts_s" where
  "rpmtsOpenDB ex w ts mode =
     (if rdb ts \<noteq> None \<and> dbmode ts = mode then (0, w, ts)
      else
        (case rpmtsCloseDB ex w ts of (_, w1, ts1) \<Rightarrow>
           (let ts2 = ts1\<lparr>dbmode := mode\<rparr>;
                (rc, h) = rpmdbOpen ex (rootDir ts2) (dbmode ts2);
                w2 = emit (DbOpen mode) w1;
                w3 = (if rc \<noteq> 0 then emit (Log ''cannot open Packages database'') w2 else w2)
            in (rc, w3, ts2\<lparr>rdb := h\<rparr>))))"

definition rpmtsGetRdb :: "rpmts_s option \<Rightarrow> nat option" where
  "rpmtsGetRdb ts = (case ts of None \<Rightarrow> None | Some t \<Rightarrow> rdb t)"

definition rpmtsSetDBMode :: "rpmts_s option \<Rightarrow> int \<Rightarrow> int \<times> rpmts_s option" where
  "rpmtsSetDBMode ts mode =
     (case ts of
        None \<Rightarrow> (1, None)
      | Some t \<Rightarrow>
          (if rpmtsGetRdb ts = None then (0, Some (t\<lparr>dbmode := mode\<rparr>)) else (1, Some t)))"

definition rpmtsRootDir :: "rpmts_s option \<Rightarrow> string option" where
  "rpmtsRootDir ts = (case ts of None \<Rightarrow> None | Some t \<Rightarrow> rootDir t)"

definition rpmtsNElements :: "rpmts_s option \<Rightarrow> int" where
  "rpmtsNElements ts = (case ts of None \<Rightarrow> 0 | Some t \<Rightarrow> int (length (order (members t))))"

text \<open>\<open>rpmtsFree\<close>: the count is decremented, and the set survives while it stays
  positive. Otherwise the set is destroyed (\<open>None\<close>: nothing of it remains). The
  destruction first disables the change callback and empties the members, so every
  element is freed with no change event and the pool reference is given back; then the
  database is closed and the object deleted. What emptying does is written out here,
  since \<open>rpmtsEmpty\<close> itself walks the elements with an iterator that ends in
  \<open>rpmtsFree\<close>; lemma \<open>rpmtsFree_last\<close> below shows that the two agree.\<close>

definition rpmtsFree :: "extern \<Rightarrow> world \<Rightarrow> rpmts_s \<Rightarrow> world \<times> rpmts_s option" where
  "rpmtsFree ex w ts =
     (if nrefs ts - 1 > 0 then (w, Some (ts\<lparr>nrefs := nrefs ts - 1\<rparr>))
      else
        (let w1 = fold (\<lambda>te. emit (TeFree te)) (order (members ts)) w;
             w2 = (case pool (members ts) of None \<Rightarrow> w1 | Some p \<Rightarrow> emit (PoolFree p) w1)
         in case rpmtsCloseDB ex w2 (ts\<lparr>change := None\<rparr>) of (_, w3, _) \<Rightarrow> (w3, None)))"

subsection \<open>Transactions: the lock and the signal mask\<close>

datatype sigop = SIG_BLOCK | SIG_UNBLOCK

text \<open>Modelled from the spec: \<open>rpmsqBlock\<close> lives in rpmsq.cc, which is not part of the
  sources at hand. Blocking masks SIGINT, SIGTERM and SIGQUIT for the thread and
  remembers the mask it found; unblocking restores the mask to that prior value.\<close>

definition rpmsqBlock :: "sigop \<Rightarrow> world \<Rightarrow> world" where
  "rpmsqBlock op w =
     (case op of
        SIG_BLOCK \<Rightarrow>
          w\<lparr>sigsaved := sigmask w # sigsaved w,
            sigmask := sigmask w \<union> {SIGINT, SIGTERM, SIGQUIT}\<rparr>
      | SIG_UNBLOCK \<Rightarrow>
          (case sigsaved w of
             [] \<Rightarrow> w
           | m # ms \<Rightarrow> w\<lparr>sigsaved := ms, sigmask := m\<rparr>))"

record rpmtxn_s =
  txn_lock :: "nat option"
  txn_flags :: rpmtxnFlags

definition RPMLOCK_PATH :: "extern \<Rightarrow> string" where
  "RPMLOCK_PATH ex = LOCALSTATEDIR ex @ ''/rpm/.rpm.lock''"

text \<open>The first block of \<open>rpmtxnBegin\<close>: the lock path is resolved once, from the
  root directory and the configured template, with the compiled-in default when the
  expansion is null, empty or an unexpanded macro; the directory of the lock file is
  created.\<close>

definition rpmtxnLockPath :: "extern \<Rightarrow> world \<Rightarrow> rpmts_s \<Rightarrow> world \<times> rpmts_s" where
  "rpmtxnLockPath ex w ts =
     (if lockPath ts = None then
        (let root = (case rpmtsRootDir (Some ts) of
                       None \<Rightarrow> ''/''
                     | Some r \<Rightarrow> if rpmChrootDone ex then ''/'' else r);
             t = (case rpmGenPath ex root ''%{?_rpmlock_path}'' of
                    None \<Rightarrow> RPMLOCK_PATH ex
                  | Some [] \<Rightarrow> RPMLOCK_PATH ex
                  | Some (c # cs) \<Rightarrow> if c = CHR ''%'' then RPMLOCK_PATH ex else c # cs)
         in (emit (Mkpath t) w, ts\<lparr>lockPath := Some t\<rparr>))
      else (w, ts))"

definition rpmtxnBegin ::
  "extern \<Rightarrow> world \<Rightarrow> rpmts_s option \<Rightarrow> rpmtxnFlags \<Rightarrow> rpmtxn_s option \<times> world \<times> rpmts_s option"
where
  "rpmtxnBegin ex w tsp flags =
     (case tsp of
        None \<Rightarrow> (None, w, None)
      | Some ts \<Rightarrow>
          (let (w1, ts1) = rpmtxnLockPath ex w ts;
               ts2 = (if lock ts1 = None then ts1\<lparr>lock := rpmlockNew ex (lockPath ts1)\<rparr>
                      else ts1);
               lockmode = (if flags = RPMTXN_WRITE then RPMLOCK_WRITE else RPMLOCK_READ);
               w2 = emit (LockAcquire lockmode) w1
           in if rpmlockAcquire ex (lock ts2) lockmode then
                (Some \<lparr>txn_lock = lock ts2, txn_flags = flags\<rparr>,
                 (if flags = RPMTXN_WRITE then rpmsqBlock SIG_BLOCK w2 else w2),
                 Some (rpmtsLink ts2))
              else (None, w2, Some ts2)))"

text \<open>\<open>rpmtxnEnd\<close>, on the set \<open>ts\<close> the handle refers to. The set that remains is
  \<open>None\<close> when the handle held the last reference.\<close>

definition rpmtxnEnd ::
  "extern \<Rightarrow> world \<Rightarrow> rpmts_s \<Rightarrow> rpmtxn_s option \<Rightarrow> world \<times> rpmts_s option"
where
  "rpmtxnEnd ex w ts txn =
     (case txn of
        None \<Rightarrow> (w, Some ts)
      | Some t \<Rightarrow>
          (let w1 = emit LockRelease w;
               w2 = (if txn_flags t = RPMTXN_WRITE then rpmsqBlock SIG_UNBLOCK w1 else w1)
           in rpmtsFree ex w2 ts))"

definition rpmtsRebuildDB ::
  "extern \<Rightarrow> world \<Rightarrow> rpmts_s option \<Rightarrow> int \<times> world \<times> rpmts_s option"
where
  "rpmtsRebuildDB ex w tsp =
     (if rpmtsNElements tsp > 0 then (- 1, w, tsp)
      else
        (let rebuildflags =
               (if rpmExpandNumeric ex ''%{?_rebuilddb_salvage}'' \<noteq> 0
                then RPMDB_REBUILD_FLAG_SALVAGE else 0)
         in case rpmtxnBegin ex w tsp RPMTXN_WRITE of
              (Some txn, w1, Some ts) \<Rightarrow>
                (let hdrchk = (vsflags ts AND RPMVSF_NOHDRCHK = 0);
                     rc = rpmdbRebuild ex (rootDir ts) hdrchk rebuildflags;
                     w2 = emit (DbRebuild hdrchk rebuildflags) w1;
                     (w3, ts3) = rpmtxnEnd ex w2 ts (Some txn)
                 in (rc, w3, ts3))
            | (_, w1, ts1) \<Rightarrow> (- 1, w1, ts1)))"

subsection \<open>Example values\<close>

definition extern0 :: extern where
  "extern0 =
     \<lparr>rpmlockNew = (\<lambda>p. Some 1),
      rpmlockAcquire = (\<lambda>l m. l \<noteq> None),
      rpmdbOpen = (\<lambda>root mode. (0, Some 7)),
      rpmdbClose = (\<lambda>db. 0),
      rpmdbRebuild = (\<lambda>root chk fl. 0),
      rpmdbInitIterator = (\<lambda>db tag key keylen. if db = None then None else Some 3),
      rpmExpand = (\<lambda>s. []),
      rpmExpandNumeric = (\<lambda>s. 0),
      rpmGetPath = (\<lambda>p. p),
      rpmGenPath = (\<lambda>root p. Some (root @ ''var/lib/rpm/.rpm.lock'')),
      rpmChrootDone = False,
      LOCALSTATEDIR = ''/var'',
      load_keys = (\<lambda>ks kr. kr),
      import_key = (\<lambda>ks k r. RPMRC_OK),
      delete_key = (\<lambda>ks k. RPMRC_FAIL),
      pgpPubKeyLint = (\<lambda>pkt. (RPMRC_OK, None)),
      rpmPubkeyNew = (\<lambda>pkt. case pkt of [] \<Rightarrow> None
                            | b # bs \<Rightarrow> Some \<lparr>fingerprint = [char_of b], material = bs\<rparr>),
      rpmstrPoolCreate = 9,
      rpmstrPoolFree = (\<lambda>p. None),
      rpmalFree = (\<lambda>p. None),
      rpmdsFree = (\<lambda>p. None),
      rpmIsNormal = True,
      xmalloc_bytes = (\<lambda>n. replicate n (CHR 0x00))\<rparr>"

definition world0 :: world where
  "world0 = \<lparr>sigmask = {SIGPIPE}, sigsaved = [], trace = []\<rparr>"

definition ts0 :: rpmts_s where
  "ts0 =
     \<lparr>rdb = None, dbmode = 0, rootDir = None, lockPath = None, lock = None,
      keyring = None, keystore = None, vsflags = 0, transFlags = 0,
      overrideTime = - 1, tid = 0, change = None,
      members = \<lparr>pool = None, order = [], removedPackages = [],
                 addedPackages = None, rpmlib = None\<rparr>,
      nrefs = 1\<rparr>"

definition te1 :: rpmte_s where
  "te1 = \<lparr>teKey = 1, teType = 1\<rparr>"

definition te2 :: rpmte_s where
  "te2 = \<lparr>teKey = 2, teType = 2\<rparr>"

definition te3 :: rpmte_s where
  "te3 = \<lparr>teKey = 3, teType = 1\<rparr>"

definition with_order :: "rpmte_s list \<Rightarrow> rpmts_s \<Rightarrow> rpmts_s" where
  "with_order es ts = ts\<lparr>members := (members ts)\<lparr>order := es\<rparr>\<rparr>"

subsection \<open>What may happen while a transaction is open\<close>

text \<open>Between begin and end the caller runs other operations. An operation is neutral
  for the signal mask when it leaves the mask and the remembered masks as it found
  them; a nested transaction (a begin with its matching end) is such an operation.\<close>

definition mask_neutral :: "(world \<Rightarrow> world) \<Rightarrow> bool" where
  "mask_neutral f = (\<forall>v. sigmask (f v) = sigmask v \<and> sigsaved (f v) = sigsaved v)"

definition run_steps :: "(world \<Rightarrow> world) list \<Rightarrow> world \<Rightarrow> world" where
  "run_steps fs w = fold (\<lambda>f v. f v) fs w"

definition nested_txn :: "extern \<Rightarrow> rpmts_s option \<Rightarrow> rpmtxnFlags \<Rightarrow> world \<Rightarrow> world" where
  "nested_txn ex tsp flags v =
     (case rpmtxnBegin ex v tsp flags of
        (Some t, v1, Some ts1) \<Rightarrow> fst (rpmtxnEnd ex v1 ts1 (Some t))
      | (_, v1, _) \<Rightarrow> v1)"

definition txn0 :: rpmtxn_s where
  "txn0 = \<lparr>txn_lock = Some 1, txn_flags = RPMTXN_WRITE\<rparr>"

subsection \<open>Iterator creation and the label key\<close>

text \<open>Modelled from the spec: \<open>risdigit\<close> is an inline helper of rpmstring.h, which is not
  part of the sources at hand; it recognises the ten decimal digits, whatever the
  locale.\<close>

definition risdigit :: "char \<Rightarrow> bool" where
  "risdigit c = (c \<in> set ''0123456789'')"

datatype label_error = ExtraOpen | MissingOpen | MissingClose

definition label_error_msg :: "label_error \<Rightarrow> string" where
  "label_error_msg e =
     (case e of
        ExtraOpen \<Rightarrow> ''extra '(' in package label''
      | MissingOpen \<Rightarrow> ''missing '(' in package label''
      | MissingClose \<Rightarrow> ''missing ')' in package label'')"

text \<open>The loop over the key: \<open>s\<close> is what is left to read (the bytes before the
  terminating NUL), \<open>t\<close> what has been written to the buffer, \<open>level\<close> the nesting
  level. After the loop a non-zero level is an error. An error leaves the loop with
  the bytes written so far: the terminator is written only after the last check.\<close>

function parse_label :: "string \<Rightarrow> string \<Rightarrow> int \<Rightarrow> (label_error \<times> string) + string" where
  "parse_label [] t level = (if level \<noteq> 0 then Inl (MissingClose, t) else Inr t)"
| "parse_label (c # s) t level =
     (if c = CHR ''('' then
        (if level \<noteq> 0 then Inl (ExtraOpen, t)
         else
           (case dropWhile risdigit s of
              [] \<Rightarrow> parse_label s (t @ ''-'') (level + 1)
            | d # se \<Rightarrow>
                if d = CHR '':'' then parse_label se (t @ ''-'') (level + 1)
                else parse_label s (t @ ''-'') (level + 1)))
      else if c = CHR '')'' then
        (if level - 1 \<noteq> 0 then Inl (MissingOpen, t) else parse_label s t (level - 1))
      else parse_label s (t @ [c]) level)"
  by pat_completeness auto
termination
proof (relation "measure (\<lambda>(s, t, level). length s)")
  fix c :: char and s t :: string and level :: int and d se
  assume "dropWhile risdigit s = d # se"
  then have "length (d # se) \<le> length s"
    by (metis length_dropWhile_le)
  then show "((se, t @ ''-'', level + 1), (c # s, t, level)) \<in> measure (\<lambda>(s, t, level). length s)"
    by simp
qed auto

definition label_key ::
  "rpmDbiTagVal \<Rightarrow> string option \<Rightarrow> (label_error \<times> string) + string option"
where
  "label_key rpmtag keyp =
     (case keyp of
        None \<Rightarrow> Inr None
      | Some s \<Rightarrow>
          if rpmtag = RPMDBI_LABEL \<and> CHR ''('' \<in> set s then
            (case parse_label s [] 0 of Inl e \<Rightarrow> Inl e | Inr t \<Rightarrow> Inr (Some t))
          else Inr (Some s))"

text \<open>What the label grammar of the specification says of one group: inside the
  parentheses a leading digit run followed by a colon is the explicit epoch and is
  dropped; the opening parenthesis becomes a dash, the closing one is dropped.\<close>

definition spec_drop_epoch :: "string \<Rightarrow> string" where
  "spec_drop_epoch inner =
     (case dropWhile risdigit inner of
        [] \<Rightarrow> inner
      | d # rest \<Rightarrow> if d = CHR '':'' then rest else inner)"

definition spec_label :: "string \<Rightarrow> string \<Rightarrow> string \<Rightarrow> string" where
  "spec_label pre inner post = pre @ ''-'' @ spec_drop_epoch inner @ post"

definition no_paren :: "string \<Rightarrow> bool" where
  "no_paren s = (CHR ''('' \<notin> set s \<and> CHR '')'' \<notin> set s)"

subsection \<open>Loading the keyring\<close>

definition rpmtsVSFlags :: "rpmts_s option \<Rightarrow> rpmVSFlags" where
  "rpmtsVSFlags ts = (case ts of None \<Rightarrow> 0 | Some t \<Rightarrow> vsflags t)"

definition rpmtsSetVSFlags :: "rpmts_s \<Rightarrow> rpmVSFlags \<Rightarrow> rpmts_s" where
  "rpmtsSetVSFlags ts fl = ts\<lparr>vsflags := fl\<rparr>"

definition rpmtsFlags :: "rpmts_s option \<Rightarrow> rpmtransFlags" where
  "rpmtsFlags ts = (case ts of None \<Rightarrow> 0 | Some t \<Rightarrow> transFlags t)"

definition getKeystore :: "extern \<Rightarrow> world \<Rightarrow> rpmts_s \<Rightarrow> world \<times> rpmts_s" where
  "getKeystore ex w ts =
     (if keystore ts = None then
        (let krtype = rpmExpand ex ''%{?_keyring}''
         in if krtype = ''fs'' then (w, ts\<lparr>keystore := Some keystore_fs\<rparr>)
            else if krtype = ''rpmdb'' then (w, ts\<lparr>keystore := Some keystore_rpmdb\<rparr>)
            else (emit (Log ''unknown keyring type, using rpmdb'') w,
                  ts\<lparr>keystore := Some keystore_rpmdb\<rparr>))
      else (w, ts))"

text \<open>\<open>loadKeyring\<close>. The set that remains is \<open>None\<close> when ending the read transaction
  dropped the last reference (a set whose count was not positive on entry).\<close>

definition loadKeyring :: "extern \<Rightarrow> world \<Rightarrow> rpmts_s \<Rightarrow> world \<times> rpmts_s option" where
  "loadKeyring ex w ts =
     (if rpmtsVSFlags (Some ts) AND RPMVSF_MASK_NOSIGNATURES \<noteq> RPMVSF_MASK_NOSIGNATURES then
        (let (w1, ts1) = getKeystore ex w ts;
             ts2 = ts1\<lparr>keyring := Some Map.empty\<rparr>
         in case rpmtxnBegin ex w1 (Some ts2) RPMTXN_READ of
              (Some txn, w2, Some ts3) \<Rightarrow>
                (case (keystore ts3, keyring ts3) of
                   (Some ks, Some kr) \<Rightarrow>
                     rpmtxnEnd ex (emit KeystoreLoad w2)
                       (ts3\<lparr>keyring := Some (load_keys ex ks kr)\<rparr>) (Some txn)
                 | _ \<Rightarrow> rpmtxnEnd ex w2 ts3 (Some txn))
            | (_, w2, tso) \<Rightarrow> (w2, tso))
      else (w, Some ts))"

text \<open>\<open>rpmtsGetKeyring\<close> on a non-null set: the keyring returned is the set's own
  (a counted reference to the same object), so it is read from the set that remains.\<close>

definition rpmtsGetKeyring :: "extern \<Rightarrow> world \<Rightarrow> rpmts_s \<Rightarrow> bool \<Rightarrow> world \<times> rpmts_s option" where
  "rpmtsGetKeyring ex w ts autoload =
     (if keyring ts = None \<and> autoload then loadKeyring ex w ts else (w, Some ts))"

text \<open>What \<open>%s\<close> prints of a buffer: the bytes before the first NUL. With no NUL in
  the block the read runs past its end, which is undefined behaviour (\<open>None\<close>).\<close>

definition c_string :: "string \<Rightarrow> string option" where
  "c_string bytes =
     (if CHR 0x00 \<in> set bytes then Some (takeWhile (\<lambda>c. c \<noteq> CHR 0x00) bytes) else None)"

text \<open>The translation buffer when a label error is reported: a block of
  \<open>strlen(key) + 1\<close> bytes from \<open>xmalloc\<close> whose first bytes are the ones written so
  far; the rest is as the allocator left it.\<close>

definition label_buffer :: "extern \<Rightarrow> string option \<Rightarrow> string \<Rightarrow> string" where
  "label_buffer ex keyp written =
     (let n = (case keyp of None \<Rightarrow> 0 | Some s \<Rightarrow> length s + 1)
      in written @ drop (length written) (take n (xmalloc_bytes ex n)))"

text \<open>The first two steps of \<open>rpmtsInitIterator\<close>: the database is opened when it is
  not open, and the keyring is loaded when the set has none.\<close>

definition rpmtsInitIterator_open :: "extern \<Rightarrow> world \<Rightarrow> rpmts_s \<Rightarrow> int \<times> world \<times> rpmts_s" where
  "rpmtsInitIterator_open ex w ts =
     (if rdb ts = None then rpmtsOpenDB ex w ts (dbmode ts) else (0, w, ts))"

definition rpmtsInitIterator_keyring ::
  "extern \<Rightarrow> world \<Rightarrow> rpmts_s \<Rightarrow> world \<times> rpmts_s option"
where
  "rpmtsInitIterator_keyring ex w ts =
     (if keyring ts = None then loadKeyring ex w ts else (w, Some ts))"

text \<open>\<open>rpmtsInitIterator\<close>. The outer \<open>None\<close> stands for undefined behaviour: the set
  was destroyed under the caller while the keyring was loaded, or a label error is
  logged with \<open>%s\<close> reading the translation buffer, which has no terminator yet, and
  no NUL byte follows within the block. When one follows, the message is the format
  filled with the bytes before it: the ones written so far and whatever the allocator
  left after them.\<close>

definition rpmtsInitIterator ::
  "extern \<Rightarrow> world \<Rightarrow> rpmts_s option \<Rightarrow> rpmDbiTagVal \<Rightarrow> string option \<Rightarrow> nat \<Rightarrow>
   (nat option \<times> world \<times> rpmts_s option) option"
where
  "rpmtsInitIterator ex w tsp rpmtag keyp keylen =
     (case tsp of
        None \<Rightarrow> Some (None, w, None)
      | Some ts \<Rightarrow>
          (case rpmtsInitIterator_open ex w ts of
             (rc, w1, ts1) \<Rightarrow>
               if rc \<noteq> 0 then Some (None, w1, Some ts1)
               else
                 (case rpmtsInitIterator_keyring ex w1 ts1 of
                    (w2, None) \<Rightarrow> None
                  | (w2, Some ts2) \<Rightarrow>
                      (case label_key rpmtag keyp of
                         Inl (e, written) \<Rightarrow>
                           (case c_string (label_buffer ex keyp written) of
                              None \<Rightarrow> None
                            | Some txt \<Rightarrow>
                                Some (None,
                                      emit (Log (label_error_msg e @ '': '' @ txt @ [CHR 0x0A])) w2,
                                      Some ts2))
                       | Inr key \<Rightarrow>
                           (let mi = rpmdbInitIterator ex (rdb ts2) rpmtag key keylen;
                                w3 = emit (DbInitIterator rpmtag key keylen) w2;
                                w4 = (if mi \<noteq> None \<and> vsflags ts2 AND RPMVSF_NOHDRCHK = 0
                                      then emit DbSetHdrChk w3 else w3)
                            in Some (mi, w4, Some ts2))))))"

text \<open>A key made of balanced groups: each pair is the text before a group and the text
  inside its parentheses. \<open>label_groups\<close> is the key as written, \<open>spec_groups\<close> its
  translation by the rule above.\<close>

definition label_groups :: "(string \<times> string) list \<Rightarrow> string" where
  "label_groups gs = concat (map (\<lambda>(p, i). p @ ''('' @ i @ '')'') gs)"

definition spec_groups :: "(string \<times> string) list \<Rightarrow> string" where
  "spec_groups gs = concat (map (\<lambda>(p, i). p @ ''-'' @ spec_drop_epoch i) gs)"

definition groups_ok :: "(string \<times> string) list \<Rightarrow> bool" where
  "groups_ok gs = list_all (\<lambda>(p, i). no_paren p \<and> no_paren i) gs"

definition ts_open :: rpmts_s where
  "ts_open = ts0\<lparr>rdb := Some 7, keyring := Some Map.empty\<rparr>"

definition extern_dirty :: extern where
  "extern_dirty = extern0\<lparr>xmalloc_bytes := (\<lambda>n. replicate n (CHR ''#''))\<rparr>"


subsection \<open>The element iterator\<close>

text \<open>An iterator holds a counted reference to its set and the index \<open>oc\<close>. The set
  it refers to is passed along as \<open>tsp\<close> (\<open>None\<close> when \<open>tsi->ts\<close> is null).\<close>

record rpmtsi_s =
  tsi_oc :: int

definition rpmtsElement :: "rpmts_s option \<Rightarrow> int \<Rightarrow> rpmte_s option" where
  "rpmtsElement tsp ix =
     (case tsp of
        None \<Rightarrow> None
      | Some ts \<Rightarrow>
          if ix \<ge> 0 \<and> ix < int (length (order (members ts)))
          then Some (order (members ts) ! nat ix) else None)"

definition rpmtsiInit :: "rpmts_s option \<Rightarrow> rpmtsi_s \<times> rpmts_s option" where
  "rpmtsiInit tsp = (\<lparr>tsi_oc = 0\<rparr>, map_option rpmtsLink tsp)"

definition rpmtsiNextElement ::
  "rpmts_s option \<Rightarrow> rpmtsi_s option \<Rightarrow> rpmte_s option \<times> rpmtsi_s option"
where
  "rpmtsiNextElement tsp tsi =
     (case tsi of
        None \<Rightarrow> (None, None)
      | Some i \<Rightarrow>
          if tsp = None \<or> rpmtsNElements tsp \<le> 0 then (None, Some i)
          else if tsi_oc i < rpmtsNElements tsp
               then (rpmtsElement tsp (tsi_oc i), Some (i\<lparr>tsi_oc := tsi_oc i + 1\<rparr>))
               else (None, Some i))"

definition tsi_left :: "rpmts_s option \<Rightarrow> rpmtsi_s option \<Rightarrow> nat" where
  "tsi_left tsp tsi =
     (case tsi of None \<Rightarrow> 0 | Some i \<Rightarrow> nat (rpmtsNElements tsp - tsi_oc i))"

lemma rpmtsiNextElement_left:
  "rpmtsiNextElement tsp tsi = (Some te, tsi') \<Longrightarrow> tsi_left tsp tsi' < tsi_left tsp tsi"
  by (cases tsi)
     (auto simp: rpmtsiNextElement_def tsi_left_def split: if_splits)

function rpmtsiNext ::
  "rpmts_s option \<Rightarrow> rpmtsi_s option \<Rightarrow> rpmElementTypes \<Rightarrow> rpmte_s option \<times> rpmtsi_s option"
where
  "rpmtsiNext tsp tsi types =
     (case rpmtsiNextElement tsp tsi of
        (None, tsi') \<Rightarrow> (None, tsi')
      | (Some te, tsi') \<Rightarrow>
          if types = 0 \<or> rpmteType te AND types \<noteq> 0 then (Some te, tsi')
          else rpmtsiNext tsp tsi' types)"
  by pat_completeness auto
termination
  by (relation "measure (\<lambda>(tsp, tsi, types). tsi_left tsp tsi)")
     (auto dest: rpmtsiNextElement_left [OF sym])

declare rpmtsiNext.simps [simp del]

lemma rpmtsiNext_left:
  "rpmtsiNext tsp tsi types = (Some te, tsi') \<Longrightarrow> tsi_left tsp tsi' < tsi_left tsp tsi"
proof (induction tsp tsi types rule: rpmtsiNext.induct)
  case (1 tsp tsi types)
  obtain e i where n: "rpmtsiNextElement tsp tsi = (e, i)"
    by (cases "rpmtsiNextElement tsp tsi") auto
  show ?case
  proof (cases e)
    case None
    with n "1.prems" show ?thesis by (simp add: rpmtsiNext.simps)
  next
    case (Some x)
    with n have l: "tsi_left tsp i < tsi_left tsp tsi"
      by (simp add: rpmtsiNextElement_left)
    show ?thesis
    proof (cases "types = 0 \<or> rpmteType x AND types \<noteq> 0")
      case True
      with n Some "1.prems" l show ?thesis by (auto simp: rpmtsiNext.simps)
    next
      case False
      with n Some "1.prems" have "rpmtsiNext tsp i types = (Some te, tsi')"
        by (simp add: rpmtsiNext.simps [of tsp tsi])
      with "1.IH" [OF n [symmetric] Some False] l show ?thesis by simp
    qed
  qed
qed

text \<open>The caller's loop \<open>while ((p = rpmtsiNext(pi, types)) != NULL)\<close>: the elements
  it visits, and the iterator it leaves.\<close>

function rpmtsi_walk ::
  "rpmts_s option \<Rightarrow> rpmtsi_s option \<Rightarrow> rpmElementTypes \<Rightarrow> rpmte_s list \<times> rpmtsi_s option"
where
  "rpmtsi_walk tsp tsi types =
     (case rpmtsiNext tsp tsi types of
        (None, tsi') \<Rightarrow> ([], tsi')
      | (Some te, tsi') \<Rightarrow>
          (case rpmtsi_walk tsp tsi' types of (tes, tsi'') \<Rightarrow> (te # tes, tsi'')))"
  by pat_completeness auto
termination
  by (relation "measure (\<lambda>(tsp, tsi, types). tsi_left tsp tsi)")
     (auto dest: rpmtsiNext_left [OF sym])

declare rpmtsi_walk.simps [simp del]

definition te_selected :: "rpmElementTypes \<Rightarrow> rpmte_s \<Rightarrow> bool" where
  "te_selected types te = (types = 0 \<or> rpmteType te AND types \<noteq> 0)"

subsection \<open>Emptying the members\<close>

definition rpmtsiFree ::
  "extern \<Rightarrow> world \<Rightarrow> rpmts_s option \<Rightarrow> rpmtsi_s option \<Rightarrow> world \<times> rpmts_s option"
where
  "rpmtsiFree ex w tsp tsi =
     (case tsi of
        None \<Rightarrow> (w, tsp)
      | Some i \<Rightarrow> (case tsp of None \<Rightarrow> (w, None) | Some ts \<Rightarrow> rpmtsFree ex w ts))"

text \<open>\<open>rpmtsCleanProblems\<close> and the first loop of \<open>rpmtsClean\<close> visit every element
  with a fresh iterator; what they clean are the problem and dependency sets of the
  elements themselves, which lie outside this model. The iterator's reference to the
  set is taken and given back.\<close>

definition rpmtsCleanProblems :: "extern \<Rightarrow> world \<Rightarrow> rpmts_s option \<Rightarrow> world \<times> rpmts_s option" where
  "rpmtsCleanProblems ex w tsp =
     (let (tsi, tsp1) = rpmtsiInit tsp;
          (visited, tsi') = rpmtsi_walk tsp1 (Some tsi) 0
      in rpmtsiFree ex w tsp1 tsi')"

text \<open>\<open>rpmtsClean\<close>. The outer \<open>None\<close> stands for undefined behaviour: the members
  are used after the iterator gave back the last reference to the set.\<close>

definition rpmtsClean ::
  "extern \<Rightarrow> world \<Rightarrow> rpmts_s option \<Rightarrow> (world \<times> rpmts_s option) option"
where
  "rpmtsClean ex w tsp =
     (case tsp of
        None \<Rightarrow> Some (w, None)
      | Some ts \<Rightarrow>
          (let (tsi, tsp1) = rpmtsiInit tsp;
               (visited, tsi') = rpmtsi_walk tsp1 (Some tsi) 0
           in case rpmtsiFree ex w tsp1 tsi' of
                (w1, None) \<Rightarrow> None
              | (w1, Some ts1) \<Rightarrow>
                  Some (rpmtsCleanProblems ex w1
                    (Some (ts1\<lparr>members := (members ts1)
                       \<lparr>addedPackages := rpmalFree ex (addedPackages (members ts1)),
                        rpmlib := rpmdsFree ex (rpmlib (members ts1))\<rparr>\<rparr>)))))"

definition rpmtsNotifyChange ::
  "world \<Rightarrow> rpmts_s option \<Rightarrow> rpmtsEvent \<Rightarrow> rpmte_s \<Rightarrow> rpmte_s option \<Rightarrow> int \<times> world"
where
  "rpmtsNotifyChange w tsp event te other =
     (case tsp of
        None \<Rightarrow> (0, w)
      | Some ts \<Rightarrow>
          (case change ts of
             None \<Rightarrow> (0, w)
           | Some f \<Rightarrow> (f event te other, emit (Change event te) w)))"

text \<open>One round of the loop of \<open>rpmtsEmpty\<close>: the change callback for the element,
  then the element is freed.\<close>

definition rpmtsEmpty_step :: "rpmts_s \<Rightarrow> rpmte_s \<Rightarrow> world \<Rightarrow> world" where
  "rpmtsEmpty_step ts te w =
     emit (TeFree te) (snd (rpmtsNotifyChange w (Some ts) RPMTS_EVENT_DEL te None))"

definition rpmtsEmpty ::
  "extern \<Rightarrow> world \<Rightarrow> rpmts_s option \<Rightarrow> (world \<times> rpmts_s option) option"
where
  "rpmtsEmpty ex w tsp =
     (case tsp of
        None \<Rightarrow> Some (w, None)
      | Some ts \<Rightarrow>
          (case rpmtsClean ex w tsp of
             None \<Rightarrow> None
           | Some (w1, None) \<Rightarrow> None
           | Some (w1, Some ts1) \<Rightarrow>
               (let w2 = fold (rpmtsEmpty_step ts1) (order (members ts1)) w1;
                    w3 = (case pool (members ts1) of
                            None \<Rightarrow> w2
                          | Some p \<Rightarrow> emit (PoolFree p) w2)
                in Some (w3,
                     Some (ts1\<lparr>members := (members ts1)
                        \<lparr>order := [],
                         pool := rpmstrPoolFree ex (pool (members ts1)),
                         removedPackages := []\<rparr>\<rparr>)))))"

definition rpmtsPool :: "extern \<Rightarrow> rpmts_s option \<Rightarrow> nat option \<times> rpmts_s option" where
  "rpmtsPool ex tsp =
     (case tsp of
        None \<Rightarrow> (None, None)
      | Some ts \<Rightarrow>
          (let ts1 = (if pool (members ts) = None
                      then ts\<lparr>members := (members ts)\<lparr>pool := Some (rpmstrPoolCreate ex)\<rparr>\<rparr>
                      else ts)
           in (pool (members ts1), Some ts1)))"

text \<open>The change events a world has seen for the deletion of elements.\<close>

definition del_events :: "world \<Rightarrow> rpmte_s list" where
  "del_events w = concat (map (\<lambda>e. case e of Change RPMTS_EVENT_DEL te \<Rightarrow> [te] | _ \<Rightarrow> []) (trace w))"

definition pool_frees :: "world \<Rightarrow> nat list" where
  "pool_frees w = concat (map (\<lambda>e. case e of PoolFree p \<Rightarrow> [p] | _ \<Rightarrow> []) (trace w))"

definition ts_pool :: rpmts_s where
  "ts_pool = with_order [te1, te2] (ts0\<lparr>members := (members ts0)\<lparr>pool := Some 5\<rparr>\<rparr>)"

definition ts_cb :: rpmts_s where
  "ts_cb = ts_pool\<lparr>change := Some (\<lambda>event te other. 0)\<rparr>"

subsection \<open>Root directory\<close>

text \<open>\<open>rpmtsSetRootDir\<close>. A null path is \<open>None\<close>; the first byte of an empty
  string is its terminating NUL, which is not a slash.\<close>

definition rpmtsSetRootDir ::
  "extern \<Rightarrow> rpmts_s option \<Rightarrow> string option \<Rightarrow> int \<times> rpmts_s option"
where
  "rpmtsSetRootDir ex tsp dir =
     (case tsp of
        None \<Rightarrow> (- 1, None)
      | Some ts \<Rightarrow>
          if (case dir of None \<Rightarrow> False | Some [] \<Rightarrow> True | Some (c # cs) \<Rightarrow> c \<noteq> CHR ''/'')
          then (- 1, Some ts)
          else
            (let r = (case dir of Some p \<Rightarrow> rpmGetPath ex p | None \<Rightarrow> ''/'');
                 r1 = (if r \<noteq> ''/'' then r @ ''/'' else r)
             in (0, Some (ts\<lparr>rootDir := Some r1\<rparr>))))"

text \<open>What is assumed of \<open>rpmGetPath\<close> (rpmfileutil, outside this file) where a
  statement needs it: given an absolute path, it answers the empty string or a path
  that still starts with a slash.\<close>

definition rpmGetPath_keeps_root :: "extern \<Rightarrow> bool" where
  "rpmGetPath_keeps_root ex =
     (\<forall>cs. rpmGetPath ex (CHR ''/'' # cs) = [] \<or> hd (rpmGetPath ex (CHR ''/'' # cs)) = CHR ''/'')"

subsection \<open>Time\<close>

text \<open>\<open>rpm_time_t\<close> is the 32-bit unsigned type of rpmtypes.h and \<open>time_t\<close> the 64-bit
  type of the C library; the cast of the return statement keeps the low 32 bits.
  \<open>now\<close> is what \<open>time(NULL)\<close> answers at this call.\<close>

type_synonym rpm_time_t = "32 word"

definition rpmtsGetTime :: "time_t \<Rightarrow> rpmts_s \<Rightarrow> time_t \<Rightarrow> rpm_time_t \<times> rpmts_s" where
  "rpmtsGetTime now ts step =
     (if overrideTime ts = - 1 then (ucast now, ts)
      else (ucast (overrideTime ts), ts\<lparr>overrideTime := overrideTime ts + step\<rparr>))"

text \<open>Successive calls with the same step; \<open>nows\<close> holds the clock reading of each
  call.\<close>

fun rpmtsGetTime_calls :: "time_t list \<Rightarrow> rpmts_s \<Rightarrow> time_t \<Rightarrow> rpm_time_t list \<times> rpmts_s" where
  "rpmtsGetTime_calls [] ts step = ([], ts)"
| "rpmtsGetTime_calls (now # nows) ts step =
     (case rpmtsGetTime now ts step of
        (r, ts1) \<Rightarrow> (case rpmtsGetTime_calls nows ts1 step of (rs, ts2) \<Rightarrow> (r # rs, ts2)))"

text \<open>\<open>rpmtsCreate\<close>, for the fields of this model. \<open>source_date_epoch\<close> is what
  \<open>strtol\<close> reads from the environment variable, \<open>None\<close> when it is unset. The
  transaction id is taken with step 0.\<close>

definition rpmtsCreate :: "time_t option \<Rightarrow> time_t \<Rightarrow> rpmts_s" where
  "rpmtsCreate source_date_epoch now =
     (let ts = \<lparr>rdb = None, dbmode = 0, rootDir = None, lockPath = None, lock = None,
                keyring = None, keystore = None, vsflags = 0, transFlags = 0,
                overrideTime = (case source_date_epoch of Some v \<Rightarrow> v | None \<Rightarrow> - 1),
                tid = 0, change = None,
                members = \<lparr>pool = None, order = [], removedPackages = [],
                           addedPackages = None, rpmlib = None\<rparr>,
                nrefs = 0\<rparr>;
          (t, ts1) = rpmtsGetTime now ts 0
      in rpmtsLink (ts1\<lparr>tid := t\<rparr>))"

subsection \<open>Importing and deleting public keys\<close>

text \<open>Modelled from the spec: the keyring operations live in rpmkeyring.cc, which is not
  part of the sources at hand. Lookup is by fingerprint. Merging an old key with a new
  one of the same fingerprint yields no merged key when the new one brings no new
  material (a no-op), and otherwise the old key extended by the new material. Modify
  adds a key whose fingerprint is new or replaces the key of an existing fingerprint;
  its result is negative on error, zero when the keyring changed, positive when the
  keyring already had the key.\<close>

definition rpmKeyringLookupKey :: "rpmKeyring option \<Rightarrow> rpmPubkey_s \<Rightarrow> rpmPubkey_s option" where
  "rpmKeyringLookupKey kr key =
     (case kr of None \<Rightarrow> None | Some m \<Rightarrow> m (fingerprint key))"

definition rpmPubkeyMerge :: "rpmPubkey_s \<Rightarrow> rpmPubkey_s \<Rightarrow> rpmRC \<times> rpmPubkey_s option" where
  "rpmPubkeyMerge oldkey newkey =
     (if fingerprint oldkey \<noteq> fingerprint newkey then (RPMRC_FAIL, None)
      else
        (let fresh = filter (\<lambda>m. m \<notin> set (material oldkey)) (material newkey)
         in if fresh = [] then (RPMRC_OK, None)
            else (RPMRC_OK, Some (oldkey\<lparr>material := material oldkey @ remdups fresh\<rparr>))))"

definition rpmKeyringModify ::
  "rpmKeyring option \<Rightarrow> rpmPubkey_s \<Rightarrow> rpmKeyringModifyMode \<Rightarrow> int \<times> rpmKeyring option"
where
  "rpmKeyringModify kr key mode =
     (case kr of
        None \<Rightarrow> (- 1, None)
      | Some m \<Rightarrow>
          (case mode of
             RPMKEYRING_ADD \<Rightarrow>
               if m (fingerprint key) = None then (0, Some (m(fingerprint key \<mapsto> key)))
               else (1, Some m)
           | RPMKEYRING_REPLACE \<Rightarrow> (0, Some (m(fingerprint key \<mapsto> key)))
           | RPMKEYRING_DELETE \<Rightarrow>
               if m (fingerprint key) = None then (1, Some m)
               else (0, Some (m(fingerprint key := None)))))"

text \<open>The block shared by import and delete: the "no signatures" bits are cleared so
  that the keyring loads, the keyring is fetched with autoload, and the flags are put
  back. The keyring fetched is the set's own. The set that remains is \<open>None\<close> when
  loading the keyring destroyed it.\<close>

definition force_keyring_load :: "extern \<Rightarrow> world \<Rightarrow> rpmts_s \<Rightarrow> world \<times> rpmts_s option" where
  "force_keyring_load ex w ts =
     (let oflags = rpmtsVSFlags (Some ts);
          ts1 = rpmtsSetVSFlags ts (oflags AND NOT RPMVSF_MASK_NOSIGNATURES)
      in case rpmtsGetKeyring ex w ts1 True of
           (w1, None) \<Rightarrow> (w1, None)
         | (w1, Some ts2) \<Rightarrow> (w1, Some (rpmtsSetVSFlags ts2 oflags)))"

text \<open>The end of \<open>rpmtxnImportPubkey\<close>: the keyring is modified (replace when an old
  key was found, add otherwise) and, when that changed the keyring, the key is handed
  to the keystore. The outer \<open>None\<close> stands for undefined behaviour: the keystore
  pointer is null.\<close>

definition import_store ::
  "extern \<Rightarrow> world \<Rightarrow> rpmts_s \<Rightarrow> rpmPubkey_s \<Rightarrow> bool \<Rightarrow> (rpmRC \<times> world \<times> rpmts_s) option"
where
  "import_store ex w ts pubkey have_old =
     (case rpmKeyringModify (keyring ts) pubkey
             (if have_old then RPMKEYRING_REPLACE else RPMKEYRING_ADD) of
        (krc, kr) \<Rightarrow>
          (let ts1 = ts\<lparr>keyring := kr\<rparr>
           in if krc < 0 then Some (RPMRC_FAIL, w, ts1)
              else if krc = 0 then
                (case keystore ts1 of
                   None \<Rightarrow> None
                 | Some ks \<Rightarrow>
                     Some (import_key ex ks pubkey (if have_old then 1 else 0),
                           emit (KeystoreImport pubkey (if have_old then 1 else 0)) w, ts1))
              else Some (RPMRC_OK, w, ts1)))"

text \<open>The middle of \<open>rpmtxnImportPubkey\<close>: the packet is parsed, an old key of the same
  fingerprint is looked up and merged.\<close>

definition import_merge ::
  "extern \<Rightarrow> world \<Rightarrow> rpmts_s \<Rightarrow> nat list \<Rightarrow> (rpmRC \<times> world \<times> rpmts_s) option"
where
  "import_merge ex w ts pkt =
     (case rpmPubkeyNew ex pkt of
        None \<Rightarrow> Some (RPMRC_FAIL, w, ts)
      | Some pubkey \<Rightarrow>
          (case rpmKeyringLookupKey (keyring ts) pubkey of
             None \<Rightarrow> import_store ex w ts pubkey False
           | Some oldkey \<Rightarrow>
               (case rpmPubkeyMerge oldkey pubkey of
                  (mrc, mergedkey) \<Rightarrow>
                    if mrc \<noteq> RPMRC_OK then Some (RPMRC_FAIL, w, ts)
                    else
                      (case mergedkey of
                         None \<Rightarrow> Some (RPMRC_OK, w, ts)
                       | Some merged \<Rightarrow> import_store ex w ts merged True))))"

text \<open>\<open>rpmtxnImportPubkey\<close>, on the set \<open>ts\<close> the handle refers to. The outer \<open>None\<close>
  stands for undefined behaviour (the set destroyed while the keyring loaded, or a
  null keystore).\<close>

definition rpmtxnImportPubkey ::
  "extern \<Rightarrow> world \<Rightarrow> rpmts_s \<Rightarrow> rpmtxn_s option \<Rightarrow> nat list \<Rightarrow> (rpmRC \<times> world \<times> rpmts_s) option"
where
  "rpmtxnImportPubkey ex w ts txn pkt =
     (case txn of
        None \<Rightarrow> Some (RPMRC_FAIL, w, ts)
      | Some t \<Rightarrow>
          (case pgpPubKeyLint ex pkt of
             (lrc, lints) \<Rightarrow>
               if lrc \<noteq> RPMRC_OK then
                 Some (RPMRC_FAIL, (case lints of None \<Rightarrow> w | Some l \<Rightarrow> emit (Log l) w), ts)
               else
                 (let w1 = (case lints of
                              None \<Rightarrow> w
                            | Some l \<Rightarrow> if rpmIsNormal ex then emit (Log l) w else w)
                  in case force_keyring_load ex w1 ts of
                       (w2, None) \<Rightarrow> None
                     | (w2, Some ts2) \<Rightarrow> import_merge ex w2 ts2 pkt)))"

text \<open>\<open>rpmtxnDeletePubkey\<close>, on the set \<open>ts\<close> the handle refers to. After the branch on
  the test flag the return code is assigned \<open>RPMRC_OK\<close> once more, whatever the
  keystore answered.\<close>

definition rpmtxnDeletePubkey ::
  "extern \<Rightarrow> world \<Rightarrow> rpmts_s \<Rightarrow> rpmtxn_s option \<Rightarrow> rpmPubkey_s \<Rightarrow> (rpmRC \<times> world \<times> rpmts_s) option"
where
  "rpmtxnDeletePubkey ex w ts txn key =
     (case txn of
        None \<Rightarrow> Some (RPMRC_FAIL, w, ts)
      | Some t \<Rightarrow>
          (case force_keyring_load ex w ts of
             (w1, None) \<Rightarrow> None
           | (w1, Some ts1) \<Rightarrow>
               if rpmtsFlags (Some ts1) AND RPMTRANS_FLAG_TEST \<noteq> 0 then
                 (let rc = RPMRC_OK; rc = RPMRC_OK in Some (rc, w1, ts1))
               else
                 (case keystore ts1 of
                    None \<Rightarrow> None
                  | Some ks \<Rightarrow>
                      (let rc = delete_key ex ks key;
                           w2 = emit (KeystoreDelete key) w1;
                           rc = RPMRC_OK
                       in Some (rc, w2, ts1)))))"

definition keystore_writes :: "world \<Rightarrow> effect list" where
  "keystore_writes w =
     filter (\<lambda>e. case e of KeystoreImport k r \<Rightarrow> True | KeystoreDelete k \<Rightarrow> True | _ \<Rightarrow> False)
       (trace w)"

definition key0 :: rpmPubkey_s where
  "key0 = \<lparr>fingerprint = ''A'', material = [7, 2]\<rparr>"

definition ts_keys :: rpmts_s where
  "ts_keys = ts0\<lparr>keyring := Some Map.empty, keystore := Some keystore_rpmdb, nrefs := 2\<rparr>"

section \<open>Theorems\<close>

text \<open>C10: rpmtsSetDBMode returns 0 and stores the mode exactly when the set pointer
  is non-null and no database handle is open; otherwise (null set, or a database
  open) it returns 1 and the set, its mode included, is unchanged.\<close>

theorem rpmtsSetDBMode_spec:
  "(fst (rpmtsSetDBMode ts mode) = 0 \<longleftrightarrow> (\<exists>t. ts = Some t \<and> rdb t = None)) \<and>
   (\<forall>t. ts = Some t \<and> rdb t = None \<longrightarrow>
        rpmtsSetDBMode ts mode = (0, Some (t\<lparr>dbmode := mode\<rparr>))) \<and>
   ((ts = None \<or> (\<exists>t h. ts = Some t \<and> rdb t = Some h)) \<longrightarrow>
        rpmtsSetDBMode ts mode = (1, ts))"
  by (cases ts) (auto simp: rpmtsSetDBMode_def rpmtsGetRdb_def)

theorem rpmtsSetDBMode_spec_witness:
  "(fst (rpmtsSetDBMode (Some ts0) 2) = 0 \<longleftrightarrow> (\<exists>t. Some ts0 = Some t \<and> rdb t = None)) \<and>
   rdb ts0 = None \<and>
   rpmtsSetDBMode (Some ts0) 2 = (0, Some (ts0\<lparr>dbmode := 2\<rparr>)) \<and>
   rdb (ts0\<lparr>rdb := Some 7\<rparr>) = Some 7 \<and>
   rpmtsSetDBMode (Some (ts0\<lparr>rdb := Some 7\<rparr>)) 2 = (1, Some (ts0\<lparr>rdb := Some 7\<rparr>)) \<and>
   rpmtsSetDBMode None 2 = (1, None)"
  using rpmtsSetDBMode_spec [of "Some ts0" 2]
        rpmtsSetDBMode_spec [of "Some (ts0\<lparr>rdb := Some 7\<rparr>)" 2]
        rpmtsSetDBMode_spec [of None 2]
  by (simp add: ts0_def)

text \<open>C5: on a set with pending elements rpmtsRebuildDB returns -1 at once: no write
  transaction is begun (no lock is acquired, the signal mask is untouched), the
  database layer is not called, and the set is as it was.\<close>

theorem rpmtsRebuildDB_populated:
  "rpmtsNElements tsp > 0 \<Longrightarrow> rpmtsRebuildDB ex w tsp = (- 1, w, tsp)"
  by (simp add: rpmtsRebuildDB_def)

theorem rpmtsRebuildDB_populated_witness:
  "rpmtsNElements (Some (with_order [te1] ts0)) > 0 \<and>
   rpmtsRebuildDB extern0 world0 (Some (with_order [te1] ts0))
     = (- 1, world0, Some (with_order [te1] ts0))"
proof -
  have h: "rpmtsNElements (Some (with_order [te1] ts0)) > 0"
    by (simp add: rpmtsNElements_def with_order_def)
  show ?thesis
    using h rpmtsRebuildDB_populated [OF h, of extern0 world0] by simp
qed

subsection \<open>Signal masking of transactions\<close>

lemma emit_mask [simp]: "sigmask (emit e w) = sigmask w" "sigsaved (emit e w) = sigsaved w"
  by (simp_all add: emit_def)

lemma rpmtsCloseDB_mask:
  "rpmtsCloseDB ex w ts = (rc, w1, ts1) \<Longrightarrow> sigmask w1 = sigmask w \<and> sigsaved w1 = sigsaved w"
  by (auto simp: rpmtsCloseDB_def split: option.splits)

lemma fold_emit_mask:
  "sigmask (fold (\<lambda>x. emit (f x)) xs w) = sigmask w \<and>
   sigsaved (fold (\<lambda>x. emit (f x)) xs w) = sigsaved w"
  by (induction xs arbitrary: w) simp_all

lemma rpmtsFree_mask:
  "sigmask (fst (rpmtsFree ex w ts)) = sigmask w \<and> sigsaved (fst (rpmtsFree ex w ts)) = sigsaved w"
  by (cases "pool (members ts)"; cases "rdb ts")
     (simp_all add: rpmtsFree_def rpmtsCloseDB_def Let_def fold_emit_mask)

lemma rpmtxnLockPath_mask:
  "sigmask (fst (rpmtxnLockPath ex w ts)) = sigmask w \<and>
   sigsaved (fst (rpmtxnLockPath ex w ts)) = sigsaved w"
  by (simp add: rpmtxnLockPath_def Let_def)

lemma rpmtxnBegin_sigmask:
  "sigmask (fst (snd (rpmtxnBegin ex w tsp flags))) =
     (if fst (rpmtxnBegin ex w tsp flags) \<noteq> None \<and> flags = RPMTXN_WRITE
      then sigmask w \<union> {SIGINT, SIGTERM, SIGQUIT} else sigmask w)"
  by (cases tsp)
     (simp_all add: rpmtxnBegin_def Let_def case_prod_beta rpmsqBlock_def rpmtxnLockPath_mask)

lemma rpmtxnBegin_sigsaved:
  "sigsaved (fst (snd (rpmtxnBegin ex w tsp flags))) =
     (if fst (rpmtxnBegin ex w tsp flags) \<noteq> None \<and> flags = RPMTXN_WRITE
      then sigmask w # sigsaved w else sigsaved w)"
  by (cases tsp)
     (simp_all add: rpmtxnBegin_def Let_def case_prod_beta rpmsqBlock_def rpmtxnLockPath_mask)

lemma rpmtxnBegin_flags:
  "fst (rpmtxnBegin ex w tsp flags) = Some txn \<Longrightarrow> txn_flags txn = flags"
  by (cases tsp)
     (auto simp: rpmtxnBegin_def Let_def case_prod_beta split: if_splits)

lemma rpmtxnBegin_set:
  "fst (rpmtxnBegin ex w tsp flags) \<noteq> None \<Longrightarrow> snd (snd (rpmtxnBegin ex w tsp flags)) \<noteq> None"
  by (cases tsp)
     (simp_all add: rpmtxnBegin_def Let_def case_prod_beta split: if_splits)

lemma rpmtxnEnd_mask:
  "sigmask (fst (rpmtxnEnd ex v ts (Some txn))) =
     (if txn_flags txn = RPMTXN_WRITE then (case sigsaved v of [] \<Rightarrow> sigmask v | m # ms \<Rightarrow> m) else sigmask v)"
  "sigsaved (fst (rpmtxnEnd ex v ts (Some txn))) =
     (if txn_flags txn = RPMTXN_WRITE then tl (sigsaved v) else sigsaved v)"
  by (auto simp: rpmtxnEnd_def Let_def rpmsqBlock_def rpmtsFree_mask split: list.splits)

lemma run_steps_neutral:
  "\<forall>f\<in>set fs. mask_neutral f \<Longrightarrow>
   sigmask (run_steps fs v) = sigmask v \<and> sigsaved (run_steps fs v) = sigsaved v"
  by (induction fs arbitrary: v) (auto simp: run_steps_def mask_neutral_def)

lemma nested_txn_neutral: "mask_neutral (nested_txn ex tsp flags)"
  unfolding mask_neutral_def
proof (intro allI)
  fix v
  obtain t v1 tsp1 where b: "rpmtxnBegin ex v tsp flags = (t, v1, tsp1)"
    by (cases "rpmtxnBegin ex v tsp flags") auto
  have m: "sigmask v1 = (if t \<noteq> None \<and> flags = RPMTXN_WRITE
                         then sigmask v \<union> {SIGINT, SIGTERM, SIGQUIT} else sigmask v)"
          "sigsaved v1 = (if t \<noteq> None \<and> flags = RPMTXN_WRITE
                          then sigmask v # sigsaved v else sigsaved v)"
    using rpmtxnBegin_sigmask [of ex v tsp flags] rpmtxnBegin_sigsaved [of ex v tsp flags] b
    by simp_all
  show "sigmask (nested_txn ex tsp flags v) = sigmask v \<and>
        sigsaved (nested_txn ex tsp flags v) = sigsaved v"
  proof (cases t)
    case None
    with b m show ?thesis by (simp add: nested_txn_def)
  next
    case (Some txn)
    with b have f: "txn_flags txn = flags"
      using rpmtxnBegin_flags [of ex v tsp flags txn] by simp
    from Some b obtain ts1 where s: "tsp1 = Some ts1"
      using rpmtxnBegin_set [of ex v tsp flags] by auto
    from Some b m f s show ?thesis
      by (simp add: nested_txn_def rpmtxnEnd_mask)
  qed
qed

text \<open>C4: when begin succeeds in WRITE mode, SIGINT, SIGTERM and SIGQUIT are in the
  signal mask at once and after every operation run while the handle is open (as long
  as those operations are themselves neutral for the mask, as nested transactions
  are), and the matching end restores the mask that was in force before the begin. In
  READ mode the begin leaves the mask as it is, it stays so after every such
  operation, and the end leaves it alone too.\<close>

theorem rpmtxn_signal_mask:
  assumes b: "rpmtxnBegin ex w tsp flags = (Some txn, w1, tsp1)"
      and n: "\<forall>f\<in>set steps. mask_neutral f"
  shows "(if flags = RPMTXN_WRITE
          then \<forall>k\<le>length steps. {SIGINT, SIGTERM, SIGQUIT} \<subseteq> sigmask (run_steps (take k steps) w1)
          else \<forall>k\<le>length steps. sigmask (run_steps (take k steps) w1) = sigmask w) \<and>
         sigmask (fst (rpmtxnEnd ex (run_steps steps w1) ts' (Some txn))) = sigmask w"
proof -
  have m: "sigmask w1 = (if flags = RPMTXN_WRITE
                         then sigmask w \<union> {SIGINT, SIGTERM, SIGQUIT} else sigmask w)"
          "sigsaved w1 = (if flags = RPMTXN_WRITE then sigmask w # sigsaved w else sigsaved w)"
    using rpmtxnBegin_sigmask [of ex w tsp flags] rpmtxnBegin_sigsaved [of ex w tsp flags] b
    by simp_all
  have f: "txn_flags txn = flags"
    using rpmtxnBegin_flags [of ex w tsp flags txn] b by simp
  have pre: "sigmask (run_steps (take k steps) w1) = sigmask w1 \<and>
             sigsaved (run_steps (take k steps) w1) = sigsaved w1" for k
    using n by (intro run_steps_neutral) (auto dest: in_set_takeD)
  have all: "sigmask (run_steps steps w1) = sigmask w1 \<and>
             sigsaved (run_steps steps w1) = sigsaved w1"
    using n by (rule run_steps_neutral)
  show ?thesis
    using m f pre all by (simp add: rpmtxnEnd_mask)
qed

lemma emit_neutral: "mask_neutral (emit e)"
  by (simp add: mask_neutral_def)

lemma begin0: "fst (rpmtxnBegin extern0 world0 (Some ts0) fl) = Some \<lparr>txn_lock = Some 1, txn_flags = fl\<rparr>"
  by (simp add: rpmtxnBegin_def rpmtxnLockPath_def Let_def extern0_def ts0_def rpmtsRootDir_def)

theorem rpmtxn_signal_mask_witness:
  "fst (rpmtxnBegin extern0 world0 (Some ts0) RPMTXN_WRITE) = Some txn0 \<and>
   {SIGINT, SIGTERM, SIGQUIT} \<subseteq> sigmask (fst (snd (rpmtxnBegin extern0 world0 (Some ts0) RPMTXN_WRITE))) \<and>
   {SIGINT, SIGTERM, SIGQUIT} \<subseteq>
     sigmask (run_steps [nested_txn extern0 (Some ts0) RPMTXN_WRITE, emit (Log ''working'')]
                (fst (snd (rpmtxnBegin extern0 world0 (Some ts0) RPMTXN_WRITE)))) \<and>
   sigmask (fst (rpmtxnEnd extern0
       (run_steps [nested_txn extern0 (Some ts0) RPMTXN_WRITE, emit (Log ''working'')]
          (fst (snd (rpmtxnBegin extern0 world0 (Some ts0) RPMTXN_WRITE))))
       ts0 (Some txn0))) = {SIGPIPE}"
proof -
  let ?steps = "[nested_txn extern0 (Some ts0) RPMTXN_WRITE, emit (Log ''working'')]"
  let ?r = "rpmtxnBegin extern0 world0 (Some ts0) RPMTXN_WRITE"
  have f: "fst ?r = Some txn0"
    by (simp add: begin0 txn0_def)
  then have b: "?r = (Some txn0, fst (snd ?r), snd (snd ?r))"
    by (metis prod.collapse)
  have n: "\<forall>f\<in>set ?steps. mask_neutral f"
    by (simp add: nested_txn_neutral emit_neutral)
  from rpmtxn_signal_mask [OF b n, of ts0]
  have k: "\<forall>k\<le>2. {SIGINT, SIGTERM, SIGQUIT} \<subseteq> sigmask (run_steps (take k ?steps) (fst (snd ?r)))"
    and e: "sigmask (fst (rpmtxnEnd extern0 (run_steps ?steps (fst (snd ?r))) ts0 (Some txn0))) = sigmask world0"
    by simp_all
  from k have "{SIGINT, SIGTERM, SIGQUIT} \<subseteq> sigmask (run_steps (take 0 ?steps) (fst (snd ?r)))"
    by blast
  then have k0: "{SIGINT, SIGTERM, SIGQUIT} \<subseteq> sigmask (fst (snd ?r))"
    by (simp add: run_steps_def)
  from k have "{SIGINT, SIGTERM, SIGQUIT} \<subseteq> sigmask (run_steps (take 2 ?steps) (fst (snd ?r)))"
    by blast
  then have k2: "{SIGINT, SIGTERM, SIGQUIT} \<subseteq> sigmask (run_steps ?steps (fst (snd ?r)))"
    by simp
  show ?thesis
    using f k0 k2 e by (simp add: world0_def)
qed

subsection \<open>The label key\<close>

lemma no_paren_append [simp]: "no_paren (xs @ ys) = (no_paren xs \<and> no_paren ys)"
  by (auto simp: no_paren_def)

lemma no_paren_Cons: "no_paren (c # cs) = (c \<noteq> CHR ''('' \<and> c \<noteq> CHR '')'' \<and> no_paren cs)"
  by (auto simp: no_paren_def)

lemma parse_label_plain:
  "no_paren xs \<Longrightarrow> parse_label (xs @ ys) t level = parse_label ys (t @ xs) level"
  by (induction xs arbitrary: t) (simp_all add: no_paren_Cons)

lemma not_digit_paren [simp]: "\<not> risdigit (CHR '')'')" "\<not> risdigit (CHR ''('')" "\<not> risdigit (CHR '':'')"
  by (simp_all add: risdigit_def)

lemma dropWhile_digit_close:
  "dropWhile risdigit (inner @ CHR '')'' # post) =
     (case dropWhile risdigit inner of [] \<Rightarrow> CHR '')'' # post | d # r \<Rightarrow> d # r @ CHR '')'' # post)"
  by (induction inner) simp_all

lemma no_paren_dropWhile: "no_paren s \<Longrightarrow> no_paren (dropWhile P s)"
  by (auto simp: no_paren_def dest: set_dropWhileD)

lemma parse_label_group:
  assumes "no_paren inner"
  shows "parse_label (CHR ''('' # inner @ CHR '')'' # rest) t 0 =
         parse_label rest (t @ ''-'' @ spec_drop_epoch inner) 0"
proof (cases "dropWhile risdigit inner")
  case Nil
  with assms show ?thesis
    by (simp add: dropWhile_digit_close spec_drop_epoch_def parse_label_plain
             del: dropWhile_eq_Nil_conv)
next
  case (Cons d r)
  with assms no_paren_dropWhile [of inner risdigit] have r: "no_paren r"
    by (simp add: no_paren_Cons)
  from Cons assms r show ?thesis
    by (simp add: dropWhile_digit_close spec_drop_epoch_def parse_label_plain)
qed

lemma parse_label_single:
  assumes "no_paren pre" "no_paren inner" "no_paren post"
  shows "parse_label (pre @ CHR ''('' # inner @ CHR '')'' # post) [] 0 = Inr (spec_label pre inner post)"
proof -
  have "parse_label (pre @ CHR ''('' # inner @ CHR '')'' # post) [] 0 =
        parse_label (CHR ''('' # inner @ CHR '')'' # post) pre 0"
    using assms(1) parse_label_plain [of pre "CHR ''('' # inner @ CHR '')'' # post" "[]" 0] by simp
  also have "\<dots> = parse_label post (pre @ ''-'' @ spec_drop_epoch inner) 0"
    using assms(2) by (rule parse_label_group)
  also have "\<dots> = parse_label [] ((pre @ ''-'' @ spec_drop_epoch inner) @ post) 0"
    using assms(3) parse_label_plain [of post "[]" "pre @ ''-'' @ spec_drop_epoch inner" 0] by simp
  finally show ?thesis by (simp add: spec_label_def)
qed


lemma parse_label_open:
  "parse_label (CHR ''('' # s) t 0 = parse_label (spec_drop_epoch s) (t @ ''-'') 1"
  by (cases "dropWhile risdigit s")
     (simp_all add: spec_drop_epoch_def del: dropWhile_eq_Nil_conv)

lemma spec_drop_epoch_append:
  assumes "\<not> risdigit c" "c \<noteq> CHR '':''"
  shows "spec_drop_epoch (inner @ c # rest) = spec_drop_epoch inner @ c # rest"
proof -
  have "dropWhile risdigit (inner @ c # rest) =
        (case dropWhile risdigit inner of [] \<Rightarrow> c # rest | d # r \<Rightarrow> d # r @ c # rest)"
    using assms(1) by (induction inner) simp_all
  then show ?thesis
    using assms(2)
    by (cases "dropWhile risdigit inner")
       (simp_all add: spec_drop_epoch_def del: dropWhile_eq_Nil_conv)
qed

lemma no_paren_drop_epoch: "no_paren s \<Longrightarrow> no_paren (spec_drop_epoch s)"
proof -
  assume s: "no_paren s"
  then have "no_paren (dropWhile risdigit s)" by (rule no_paren_dropWhile)
  with s show ?thesis
    by (auto simp: spec_drop_epoch_def no_paren_Cons split: list.splits)
qed

lemma parse_label_groups:
  "groups_ok gs \<Longrightarrow> parse_label (label_groups gs @ ys) t 0 = parse_label ys (t @ spec_groups gs) 0"
proof (induction gs arbitrary: t)
  case Nil
  then show ?case by (simp add: label_groups_def spec_groups_def)
next
  case (Cons g gs)
  obtain p i where g: "g = (p, i)" by (cases g)
  from Cons.prems g have ok: "no_paren p" "no_paren i" "groups_ok gs"
    by (simp_all add: groups_ok_def)
  have "parse_label (label_groups (g # gs) @ ys) t 0 =
        parse_label (p @ CHR ''('' # i @ CHR '')'' # (label_groups gs @ ys)) t 0"
    by (simp add: g label_groups_def)
  also have "\<dots> = parse_label (CHR ''('' # i @ CHR '')'' # (label_groups gs @ ys)) (t @ p) 0"
    using ok(1) by (rule parse_label_plain)
  also have "\<dots> = parse_label (label_groups gs @ ys) ((t @ p) @ ''-'' @ spec_drop_epoch i) 0"
    using ok(2) by (rule parse_label_group)
  also have "\<dots> = parse_label ys (((t @ p) @ ''-'' @ spec_drop_epoch i) @ spec_groups gs) 0"
    using ok(3) by (rule Cons.IH)
  finally show ?case by (simp add: g spec_groups_def)
qed

lemma parse_label_extra:
  assumes "no_paren pre" "no_paren inner"
  shows "parse_label (pre @ CHR ''('' # inner @ CHR ''('' # rest) t 0 =
         Inl (ExtraOpen, t @ pre @ ''-'' @ spec_drop_epoch inner)"
proof -
  have "parse_label (pre @ CHR ''('' # inner @ CHR ''('' # rest) t 0 =
        parse_label (CHR ''('' # inner @ CHR ''('' # rest) (t @ pre) 0"
    using assms(1) by (rule parse_label_plain)
  also have "\<dots> = parse_label (spec_drop_epoch inner @ CHR ''('' # rest) ((t @ pre) @ ''-'') 1"
    by (simp only: parse_label_open) (simp add: spec_drop_epoch_append)
  also have "\<dots> = parse_label (CHR ''('' # rest) (((t @ pre) @ ''-'') @ spec_drop_epoch inner) 1"
    using assms(2) by (intro parse_label_plain no_paren_drop_epoch)
  finally show ?thesis by simp
qed

lemma parse_label_missing_open:
  assumes "no_paren pre"
  shows "parse_label (pre @ CHR '')'' # rest) t 0 = Inl (MissingOpen, t @ pre)"
proof -
  have "parse_label (pre @ CHR '')'' # rest) t 0 = parse_label (CHR '')'' # rest) (t @ pre) 0"
    using assms by (rule parse_label_plain)
  then show ?thesis by simp
qed

lemma parse_label_missing_close:
  assumes "no_paren pre" "no_paren inner"
  shows "parse_label (pre @ CHR ''('' # inner) t 0 =
         Inl (MissingClose, t @ pre @ ''-'' @ spec_drop_epoch inner)"
proof -
  have "parse_label (pre @ CHR ''('' # inner) t 0 = parse_label (CHR ''('' # inner) (t @ pre) 0"
    using assms(1) by (rule parse_label_plain)
  also have "\<dots> = parse_label (spec_drop_epoch inner @ []) ((t @ pre) @ ''-'') 1"
    by (simp only: parse_label_open) simp
  also have "\<dots> = parse_label [] (((t @ pre) @ ''-'') @ spec_drop_epoch inner) 1"
    using assms(2) by (intro parse_label_plain no_paren_drop_epoch)
  finally show ?thesis by simp
qed

lemma label_groups_open: "gs \<noteq> [] \<Longrightarrow> CHR ''('' \<in> set (label_groups gs)"
  by (cases gs) (auto simp: label_groups_def)


lemma rpmtsInitIterator_steps:
  assumes "rpmtsInitIterator_open ex w ts = (0, w1, ts1)"
      and "rpmtsInitIterator_keyring ex w1 ts1 = (w2, Some ts2)"
  shows "rpmtsInitIterator ex w (Some ts) tag keyp keylen =
     (case label_key tag keyp of
        Inl (e, written) \<Rightarrow>
          (case c_string (label_buffer ex keyp written) of
             None \<Rightarrow> None
           | Some txt \<Rightarrow>
               Some (None, emit (Log (label_error_msg e @ '': '' @ txt @ [CHR 0x0A])) w2, Some ts2))
      | Inr key \<Rightarrow>
          Some (rpmdbInitIterator ex (rdb ts2) tag key keylen,
                (if rpmdbInitIterator ex (rdb ts2) tag key keylen \<noteq> None \<and>
                    vsflags ts2 AND RPMVSF_NOHDRCHK = 0
                 then emit DbSetHdrChk (emit (DbInitIterator tag key keylen) w2)
                 else emit (DbInitIterator tag key keylen) w2),
                Some ts2))"
  using assms by (cases "label_key tag keyp") (simp_all add: rpmtsInitIterator_def Let_def)

lemma rpmtsInitIterator_closed:
  assumes "rpmtsInitIterator_open ex w ts = (rc, w1, ts1)" and "rc \<noteq> 0"
  shows "rpmtsInitIterator ex w (Some ts) tag keyp keylen = Some (None, w1, Some ts1)"
  using assms by (simp add: rpmtsInitIterator_def)

lemma rpmtsInitIterator_label_error:
  assumes e: "label_key tag keyp = Inl e"
      and r: "rpmtsInitIterator ex w tsp tag keyp keylen = Some r"
  shows "fst r = None"
proof (cases tsp)
  case None
  with r show ?thesis by (auto simp: rpmtsInitIterator_def)
next
  case (Some ts)
  obtain rc w1 ts1 where o: "rpmtsInitIterator_open ex w ts = (rc, w1, ts1)"
    by (metis prod_cases3)
  obtain w2 tso where l: "rpmtsInitIterator_keyring ex w1 ts1 = (w2, tso)"
    by (metis surj_pair)
  obtain k written where p: "e = (k, written)"
    by (cases e)
  from r Some o l e p show ?thesis
    by (cases tso; cases "rc = 0"; cases "c_string (label_buffer ex keyp written)")
       (auto simp: rpmtsInitIterator_def)
qed

lemma getKeystore_nrefs: "nrefs (snd (getKeystore ex w ts)) = nrefs ts"
  by (simp add: getKeystore_def Let_def)

lemma rpmtxnLockPath_nrefs: "nrefs (snd (rpmtxnLockPath ex w ts)) = nrefs ts"
  by (simp add: rpmtxnLockPath_def Let_def)

lemma rpmtxnBegin_nrefs:
  "\<exists>ts'. snd (snd (rpmtxnBegin ex w (Some ts) flags)) = Some ts' \<and>
         nrefs ts' = nrefs ts + (if fst (rpmtxnBegin ex w (Some ts) flags) = None then 0 else 1)"
  by (simp add: rpmtxnBegin_def Let_def case_prod_beta rpmtsLink_def rpmtxnLockPath_nrefs)

lemma rpmtxnEnd_live:
  "nrefs ts \<ge> 2 \<Longrightarrow> snd (rpmtxnEnd ex w ts (Some txn)) \<noteq> None"
  by (simp add: rpmtxnEnd_def Let_def rpmtsFree_def)

lemma loadKeyring_live:
  assumes live: "nrefs ts \<ge> 1"
  shows "snd (loadKeyring ex w ts) \<noteq> None"
proof (cases "rpmtsVSFlags (Some ts) AND RPMVSF_MASK_NOSIGNATURES \<noteq> RPMVSF_MASK_NOSIGNATURES")
  case False
  then show ?thesis by (simp add: loadKeyring_def)
next
  case True
  let ?ts2 = "(snd (getKeystore ex w ts))\<lparr>keyring := Some Map.empty\<rparr>"
  let ?w1 = "fst (getKeystore ex w ts)"
  have n2: "nrefs ?ts2 = nrefs ts" by (simp add: getKeystore_nrefs)
  obtain t w2 tso where b: "rpmtxnBegin ex ?w1 (Some ?ts2) RPMTXN_READ = (t, w2, tso)"
    by (metis prod_cases3)
  from rpmtxnBegin_nrefs [of ex ?w1 ?ts2 RPMTXN_READ] b n2 obtain ts3 where
    t3: "tso = Some ts3" and n3: "nrefs ts3 = nrefs ts + (if t = None then 0 else 1)"
    by auto
  show ?thesis
  proof (cases t)
    case None
    with True b t3 show ?thesis
      by (simp add: loadKeyring_def Let_def case_prod_beta)
  next
    case (Some txn)
    with n3 live have n: "nrefs ts3 \<ge> 2" by simp
    then have e1: "snd (rpmtxnEnd ex v (ts3\<lparr>keyring := k\<rparr>) (Some txn)) \<noteq> None" for v k
      by (intro rpmtxnEnd_live) simp
    from n have e2: "snd (rpmtxnEnd ex w2 ts3 (Some txn)) \<noteq> None"
      by (rule rpmtxnEnd_live)
    from True b t3 Some e1 e2 show ?thesis
      by (cases "keystore ts3"; cases "keyring ts3")
         (simp_all add: loadKeyring_def Let_def case_prod_beta)
  qed
qed

lemma rpmtsInitIterator_prelude:
  assumes live: "nrefs ts \<ge> 1"
      and db: "rdb ts \<noteq> None \<or> fst (rpmdbOpen ex (rootDir ts) (dbmode ts)) = 0"
  shows "\<exists>w1 ts1 w2 ts2. rpmtsInitIterator_open ex w ts = (0, w1, ts1) \<and>
           rpmtsInitIterator_keyring ex w1 ts1 = (w2, Some ts2)"
proof -
  obtain rc w1 ts1 where o: "rpmtsInitIterator_open ex w ts = (rc, w1, ts1)"
    by (metis prod_cases3)
  have rc: "rc = 0" and n1: "nrefs ts1 = nrefs ts"
    using o db
    by (auto simp: rpmtsInitIterator_open_def rpmtsOpenDB_def rpmtsCloseDB_def Let_def
        case_prod_beta split: if_splits)
  have "snd (rpmtsInitIterator_keyring ex w1 ts1) \<noteq> None"
    using loadKeyring_live [of ts1 ex w1] live n1
    by (simp add: rpmtsInitIterator_keyring_def)
  then obtain w2 ts2 where "rpmtsInitIterator_keyring ex w1 ts1 = (w2, Some ts2)"
    by (cases "rpmtsInitIterator_keyring ex w1 ts1") auto
  with o rc show ?thesis by blast
qed

text \<open>C6 (amended): on a non-null set whose database is open or opens, and which is
  still there after the keyring step (as every set with a reference count of at
  least 1 is), with the label index and a key containing an opening parenthesis, the
  key handed to the database layer is the translation of the key: in every balanced
  group that is not nested the opening parenthesis becomes a dash, a leading run of
  digits (possibly empty) followed by a colon inside the parentheses is dropped, and
  the closing parenthesis is dropped; so "name(1:2.3-4)" becomes "name-2.3-4", and a
  further group after a closed one is translated likewise. An opening parenthesis
  inside a group that is still open, a closing parenthesis with no open group, or a
  missing closing parenthesis at the end is each detected as that error, with the
  translation written so far: the database layer is not asked, and whenever the call
  returns it returns a null iterator. The message logged is the wording of that
  error followed by what \<open>%s\<close> reads from the translation buffer, which has no
  terminator at that point: the call has a defined result exactly when a NUL byte
  follows within the block. When the database cannot be opened the result is null
  and the key is not looked at.\<close>

theorem label_key_translation:
  assumes gs: "groups_ok gs" and pre: "no_paren pre" and inner: "no_paren inner"
  shows "(gs \<noteq> [] \<longrightarrow>
            label_key RPMDBI_LABEL (Some (label_groups gs @ pre)) = Inr (Some (spec_groups gs @ pre))) \<and>
         label_key RPMDBI_LABEL (Some (label_groups gs @ pre @ ''('' @ inner @ ''('' @ rest))
           = Inl (ExtraOpen, spec_groups gs @ pre @ ''-'' @ spec_drop_epoch inner) \<and>
         (gs \<noteq> [] \<or> CHR ''('' \<in> set rest \<longrightarrow>
            label_key RPMDBI_LABEL (Some (label_groups gs @ pre @ '')'' @ rest))
              = Inl (MissingOpen, spec_groups gs @ pre)) \<and>
         label_key RPMDBI_LABEL (Some (label_groups gs @ pre @ ''('' @ inner))
           = Inl (MissingClose, spec_groups gs @ pre @ ''-'' @ spec_drop_epoch inner) \<and>
         label_key RPMDBI_LABEL (Some ''name(1:2.3-4)'') = Inr (Some ''name-2.3-4'') \<and>
         (\<forall>e r. label_key tag keyp = Inl e \<and>
                 rpmtsInitIterator ex w tsp tag keyp keylen = Some r \<longrightarrow> fst r = None) \<and>
         (\<forall>w1 ts1 w2 ts2.
            rpmtsInitIterator_open ex w ts = (0, w1, ts1) \<and>
            rpmtsInitIterator_keyring ex w1 ts1 = (w2, Some ts2) \<longrightarrow>
            rpmtsInitIterator ex w (Some ts) tag keyp keylen =
              (case label_key tag keyp of
                 Inl (e, written) \<Rightarrow>
                   (case c_string (label_buffer ex keyp written) of
                      None \<Rightarrow> None
                    | Some txt \<Rightarrow>
                        Some (None, emit (Log (label_error_msg e @ '': '' @ txt @ [CHR 0x0A])) w2, Some ts2))
               | Inr key \<Rightarrow>
                   Some (rpmdbInitIterator ex (rdb ts2) tag key keylen,
                         (if rpmdbInitIterator ex (rdb ts2) tag key keylen \<noteq> None \<and>
                             vsflags ts2 AND RPMVSF_NOHDRCHK = 0
                          then emit DbSetHdrChk (emit (DbInitIterator tag key keylen) w2)
                          else emit (DbInitIterator tag key keylen) w2),
                         Some ts2))) \<and>
         (\<forall>rc w1 ts1. rpmtsInitIterator_open ex w ts = (rc, w1, ts1) \<and> rc \<noteq> 0 \<longrightarrow>
            rpmtsInitIterator ex w (Some ts) tag keyp keylen = Some (None, w1, Some ts1)) \<and>
         (nrefs ts \<ge> 1 \<and> (rdb ts \<noteq> None \<or> fst (rpmdbOpen ex (rootDir ts) (dbmode ts)) = 0) \<longrightarrow>
            (\<exists>w1 ts1 w2 ts2. rpmtsInitIterator_open ex w ts = (0, w1, ts1) \<and>
                rpmtsInitIterator_keyring ex w1 ts1 = (w2, Some ts2)))"
proof -
  have ok: "gs \<noteq> [] \<longrightarrow>
      label_key RPMDBI_LABEL (Some (label_groups gs @ pre)) = Inr (Some (spec_groups gs @ pre))"
  proof
    assume ne: "gs \<noteq> []"
    have "parse_label (label_groups gs @ pre) [] 0 = parse_label pre ([] @ spec_groups gs) 0"
      using gs by (rule parse_label_groups)
    also have "\<dots> = parse_label [] (([] @ spec_groups gs) @ pre) 0"
      using pre parse_label_plain [of pre "[]" "[] @ spec_groups gs" 0] by simp
    finally have "parse_label (label_groups gs @ pre) [] 0 = Inr (spec_groups gs @ pre)"
      by simp
    with label_groups_open [OF ne] show
      "label_key RPMDBI_LABEL (Some (label_groups gs @ pre)) = Inr (Some (spec_groups gs @ pre))"
      by (simp add: label_key_def)
  qed
  have "parse_label (label_groups gs @ pre @ CHR ''('' # inner @ CHR ''('' # rest) [] 0 =
        parse_label (pre @ CHR ''('' # inner @ CHR ''('' # rest) ([] @ spec_groups gs) 0"
    using gs by (rule parse_label_groups)
  then have extra: "label_key RPMDBI_LABEL
      (Some (label_groups gs @ pre @ ''('' @ inner @ ''('' @ rest))
        = Inl (ExtraOpen, spec_groups gs @ pre @ ''-'' @ spec_drop_epoch inner)"
    using pre inner by (simp add: label_key_def parse_label_extra)
  have mo: "gs \<noteq> [] \<or> CHR ''('' \<in> set rest \<longrightarrow>
      label_key RPMDBI_LABEL (Some (label_groups gs @ pre @ '')'' @ rest))
        = Inl (MissingOpen, spec_groups gs @ pre)"
  proof
    assume "gs \<noteq> [] \<or> CHR ''('' \<in> set rest"
    then have op: "CHR ''('' \<in> set (label_groups gs @ pre @ '')'' @ rest)"
      using label_groups_open [of gs] by auto
    have "parse_label (label_groups gs @ pre @ CHR '')'' # rest) [] 0 =
          parse_label (pre @ CHR '')'' # rest) ([] @ spec_groups gs) 0"
      using gs by (rule parse_label_groups)
    then have "parse_label (label_groups gs @ pre @ CHR '')'' # rest) [] 0 =
               Inl (MissingOpen, spec_groups gs @ pre)"
      using pre by (simp add: parse_label_missing_open)
    with op show
      "label_key RPMDBI_LABEL (Some (label_groups gs @ pre @ '')'' @ rest))
         = Inl (MissingOpen, spec_groups gs @ pre)"
      by (simp add: label_key_def)
  qed
  have "parse_label (label_groups gs @ pre @ CHR ''('' # inner) [] 0 =
        parse_label (pre @ CHR ''('' # inner) ([] @ spec_groups gs) 0"
    using gs by (rule parse_label_groups)
  then have mc: "label_key RPMDBI_LABEL (Some (label_groups gs @ pre @ ''('' @ inner))
      = Inl (MissingClose, spec_groups gs @ pre @ ''-'' @ spec_drop_epoch inner)"
    using pre inner by (simp add: label_key_def parse_label_missing_close)
  have ex1: "label_key RPMDBI_LABEL (Some ''name(1:2.3-4)'') = Inr (Some ''name-2.3-4'')"
    by (simp add: label_key_def risdigit_def)
  have w1: "\<forall>e r. label_key tag keyp = Inl e \<and>
                 rpmtsInitIterator ex w tsp tag keyp keylen = Some r \<longrightarrow> fst r = None"
    using rpmtsInitIterator_label_error by blast
  have w2: "\<forall>w1 ts1 w2 ts2.
            rpmtsInitIterator_open ex w ts = (0, w1, ts1) \<and>
            rpmtsInitIterator_keyring ex w1 ts1 = (w2, Some ts2) \<longrightarrow>
            rpmtsInitIterator ex w (Some ts) tag keyp keylen =
              (case label_key tag keyp of
                 Inl (e, written) \<Rightarrow>
                   (case c_string (label_buffer ex keyp written) of
                      None \<Rightarrow> None
                    | Some txt \<Rightarrow>
                        Some (None, emit (Log (label_error_msg e @ '': '' @ txt @ [CHR 0x0A])) w2, Some ts2))
               | Inr key \<Rightarrow>
                   Some (rpmdbInitIterator ex (rdb ts2) tag key keylen,
                         (if rpmdbInitIterator ex (rdb ts2) tag key keylen \<noteq> None \<and>
                             vsflags ts2 AND RPMVSF_NOHDRCHK = 0
                          then emit DbSetHdrChk (emit (DbInitIterator tag key keylen) w2)
                          else emit (DbInitIterator tag key keylen) w2),
                         Some ts2))"
    using rpmtsInitIterator_steps by blast
  have w3: "\<forall>rc w1 ts1. rpmtsInitIterator_open ex w ts = (rc, w1, ts1) \<and> rc \<noteq> 0 \<longrightarrow>
            rpmtsInitIterator ex w (Some ts) tag keyp keylen = Some (None, w1, Some ts1)"
    using rpmtsInitIterator_closed by blast
  have w4: "nrefs ts \<ge> 1 \<and> (rdb ts \<noteq> None \<or> fst (rpmdbOpen ex (rootDir ts) (dbmode ts)) = 0) \<longrightarrow>
            (\<exists>w1 ts1 w2 ts2. rpmtsInitIterator_open ex w ts = (0, w1, ts1) \<and>
                rpmtsInitIterator_keyring ex w1 ts1 = (w2, Some ts2))"
    using rpmtsInitIterator_prelude [of ts ex w] by blast
  show ?thesis
    by (intro conjI ok extra mo mc ex1 w1 w2 w3 w4)
qed

theorem label_key_translation_witness:
  "groups_ok [(''a'', ''1:b''), (''c'', ''d'')] \<and> no_paren ''x'' \<and> no_paren ''y'' \<and>
   label_key RPMDBI_LABEL (Some ''a(1:b)c(d)x'') = Inr (Some ''a-bc-dx'') \<and>
   label_key RPMDBI_LABEL (Some ''a(1:b)c(d)x(y(z'') = Inl (ExtraOpen, ''a-bc-dx-y'') \<and>
   label_key RPMDBI_LABEL (Some ''a(1:b)c(d)x)z'') = Inl (MissingOpen, ''a-bc-dx'') \<and>
   label_key RPMDBI_LABEL (Some ''a(1:b)c(d)x(y'') = Inl (MissingClose, ''a-bc-dx-y'') \<and>
   nrefs ts0 \<ge> 1 \<and> rdb ts0 = None \<and> keyring ts0 = None \<and>
   fst (rpmdbOpen extern0 (rootDir ts0) (dbmode ts0)) = 0 \<and>
   fst (the (rpmtsInitIterator extern0 world0 (Some ts0) RPMDBI_LABEL
               (Some ''a(1:b)c(d)x'') 0))
     = rpmdbInitIterator extern0
         (rdb (the (snd (snd (the (rpmtsInitIterator extern0 world0 (Some ts0) RPMDBI_LABEL
               (Some ''a(1:b)c(d)x'') 0))))))
         RPMDBI_LABEL (Some ''a-bc-dx'') 0 \<and>
   DbInitIterator RPMDBI_LABEL (Some ''a-bc-dx'') 0
     \<in> set (trace (fst (snd (the (rpmtsInitIterator extern0 world0 (Some ts0) RPMDBI_LABEL
               (Some ''a(1:b)c(d)x'') 0))))) \<and>
   fst (the (rpmtsInitIterator extern0 world0 (Some ts0) RPMDBI_LABEL
               (Some ''a(1:b)c(d)x(y(z'') 0)) = None \<and>
   Log (''extra '(' in package label: a-bc-dx-y'' @ [CHR 0x0A])
     \<in> set (trace (fst (snd (the (rpmtsInitIterator extern0 world0 (Some ts0) RPMDBI_LABEL
               (Some ''a(1:b)c(d)x(y(z'') 0))))) \<and>
   rpmtsInitIterator extern_dirty world0 (Some ts0) RPMDBI_LABEL (Some ''a(1:b)c(d)x(y(z'') 0
     = None"
proof -
  let ?gs = "[(''a'', ''1:b''), (''c'', ''d'')]"
  have g: "groups_ok ?gs"
    by (simp add: groups_ok_def no_paren_def)
  have p: "no_paren ''x''" and i: "no_paren ''y''"
    by (simp_all add: no_paren_def)
  have v: "label_groups ?gs = ''a(1:b)c(d)''" "spec_groups ?gs = ''a-bc-d''"
          "spec_drop_epoch ''y'' = ''y''"
    by (simp_all add: label_groups_def spec_groups_def spec_drop_epoch_def risdigit_def)
  have f: "nrefs ts0 \<ge> 1" "rdb ts0 = None" "keyring ts0 = None"
          "fst (rpmdbOpen extern0 (rootDir ts0) (dbmode ts0)) = 0"
          "fst (rpmdbOpen extern_dirty (rootDir ts0) (dbmode ts0)) = 0"
    by (simp_all add: ts0_def extern0_def extern_dirty_def)
  note t = label_key_translation [OF g p i, where rest = "''z''" and tag = RPMDBI_LABEL
      and w = world0 and ts = ts0 and keylen = 0 and tsp = "Some ts0"]
  note ta = t [where keyp = "Some ''a(1:b)c(d)x''" and ex = extern0]
  note tb = t [where keyp = "Some ''a(1:b)c(d)x(y(z''" and ex = extern0]
  note tc = t [where keyp = "Some ''a(1:b)c(d)x(y(z''" and ex = extern_dirty]
  note k1 = ta [THEN conjunct1, unfolded v, simplified]
  note k2 = ta [THEN conjunct2, THEN conjunct1, unfolded v, simplified]
  note k3 = ta [THEN conjunct2, THEN conjunct2, THEN conjunct1, unfolded v, simplified]
  note k4 = ta [THEN conjunct2, THEN conjunct2, THEN conjunct2, THEN conjunct1,
      unfolded v, simplified]
  note sa = ta [THEN conjunct2, THEN conjunct2, THEN conjunct2, THEN conjunct2,
      THEN conjunct2, THEN conjunct2]
  note sb = tb [THEN conjunct2, THEN conjunct2, THEN conjunct2, THEN conjunct2,
      THEN conjunct2, THEN conjunct2]
  note sc = tc [THEN conjunct2, THEN conjunct2, THEN conjunct2, THEN conjunct2,
      THEN conjunct2, THEN conjunct2]
  from sa [THEN conjunct2, THEN conjunct2, rule_format] f obtain w1 ts1 w2 ts2 where
    o: "rpmtsInitIterator_open extern0 world0 ts0 = (0, w1, ts1)"
    and l: "rpmtsInitIterator_keyring extern0 w1 ts1 = (w2, Some ts2)"
    by blast
  have ra: "rpmtsInitIterator extern0 world0 (Some ts0) RPMDBI_LABEL
      (Some ''a(1:b)c(d)x'') 0 =
      Some (rpmdbInitIterator extern0 (rdb ts2) RPMDBI_LABEL (Some ''a-bc-dx'') 0,
            (if rpmdbInitIterator extern0 (rdb ts2) RPMDBI_LABEL (Some ''a-bc-dx'') 0 \<noteq> None \<and>
                vsflags ts2 AND RPMVSF_NOHDRCHK = 0
             then emit DbSetHdrChk (emit (DbInitIterator RPMDBI_LABEL (Some ''a-bc-dx'') 0) w2)
             else emit (DbInitIterator RPMDBI_LABEL (Some ''a-bc-dx'') 0) w2),
            Some ts2)"
    unfolding sa [THEN conjunct1, rule_format, OF conjI [OF o l]] k1 by simp
  have b0: "c_string (label_buffer extern0 (Some ''a(1:b)c(d)x(y(z'') ''a-bc-dx-y'') = Some ''a-bc-dx-y''"
    by (simp add: label_buffer_def extern0_def c_string_def)
  have rb: "rpmtsInitIterator extern0 world0 (Some ts0) RPMDBI_LABEL
      (Some ''a(1:b)c(d)x(y(z'') 0 =
      Some (None, emit (Log (label_error_msg ExtraOpen @ '': '' @ ''a-bc-dx-y'' @ [CHR 0x0A])) w2, Some ts2)"
    unfolding sb [THEN conjunct1, rule_format, OF conjI [OF o l]] k2 by (simp add: b0)
  from sc [THEN conjunct2, THEN conjunct2, rule_format] f obtain v1 us1 v2 us2 where
    o': "rpmtsInitIterator_open extern_dirty world0 ts0 = (0, v1, us1)"
    and l': "rpmtsInitIterator_keyring extern_dirty v1 us1 = (v2, Some us2)"
    by blast
  have b1: "c_string (label_buffer extern_dirty (Some ''a(1:b)c(d)x(y(z'') ''a-bc-dx-y'') = None"
    by (simp add: label_buffer_def extern_dirty_def c_string_def)
  have rc: "rpmtsInitIterator extern_dirty world0 (Some ts0) RPMDBI_LABEL
      (Some ''a(1:b)c(d)x(y(z'') 0 = None"
    unfolding sc [THEN conjunct1, rule_format, OF conjI [OF o' l']] k2 by (simp add: b1)
  have tr: "DbInitIterator RPMDBI_LABEL (Some ''a-bc-dx'') 0
     \<in> set (trace (fst (snd (the (rpmtsInitIterator extern0 world0 (Some ts0) RPMDBI_LABEL
               (Some ''a(1:b)c(d)x'') 0)))))"
    unfolding ra by (simp add: emit_def)
  have lg: "Log (''extra '(' in package label: a-bc-dx-y'' @ [CHR 0x0A])
     \<in> set (trace (fst (snd (the (rpmtsInitIterator extern0 world0 (Some ts0) RPMDBI_LABEL
               (Some ''a(1:b)c(d)x(y(z'') 0)))))"
    unfolding rb by (simp add: emit_def label_error_msg_def)
  have it: "fst (the (rpmtsInitIterator extern0 world0 (Some ts0) RPMDBI_LABEL
               (Some ''a(1:b)c(d)x'') 0))
     = rpmdbInitIterator extern0
         (rdb (the (snd (snd (the (rpmtsInitIterator extern0 world0 (Some ts0) RPMDBI_LABEL
               (Some ''a(1:b)c(d)x'') 0))))))
         RPMDBI_LABEL (Some ''a-bc-dx'') 0"
    unfolding ra by simp
  have nl: "fst (the (rpmtsInitIterator extern0 world0 (Some ts0) RPMDBI_LABEL
               (Some ''a(1:b)c(d)x(y(z'') 0)) = None"
    unfolding rb by simp
  show ?thesis
    by (intro conjI g p i k1 k2 k3 k4 f(1) f(2) f(3) f(4) it tr nl lg rc)
qed

theorem label_second_group_counterexample:
  "label_key RPMDBI_LABEL (Some ''a(b)(c)'') = Inr (Some ''a-b-c'') \<and>
   fst (the (rpmtsInitIterator extern0 world0 (Some ts_open) RPMDBI_LABEL (Some ''a(b)(c)'') 0))
     = Some 3"
proof -
  have k: "label_key RPMDBI_LABEL (Some ''a(b)(c)'') = Inr (Some ''a-b-c'')"
    by (simp add: label_key_def risdigit_def)
  have o: "rpmtsInitIterator_open extern0 world0 ts_open = (0, world0, ts_open)"
    by (simp add: rpmtsInitIterator_open_def ts_open_def)
  have l: "rpmtsInitIterator_keyring extern0 world0 ts_open = (world0, Some ts_open)"
    by (simp add: rpmtsInitIterator_keyring_def ts_open_def)
  have "fst (the (rpmtsInitIterator extern0 world0 (Some ts_open) RPMDBI_LABEL
                    (Some ''a(b)(c)'') 0))
        = rpmdbInitIterator extern0 (rdb ts_open) RPMDBI_LABEL (Some ''a-b-c'') 0"
    using k by (simp add: rpmtsInitIterator_steps [OF o l])
  also have "\<dots> = Some 3"
    by (simp add: ts_open_def extern0_def)
  finally show ?thesis
    using k by simp
qed

subsection \<open>Iteration over the elements\<close>

lemma rpmtsiNextElement_at:
  "j < length (order (members ts)) \<Longrightarrow>
   rpmtsiNextElement (Some ts) (Some \<lparr>tsi_oc = int j\<rparr>) =
     (Some (order (members ts) ! j), Some \<lparr>tsi_oc = int (Suc j)\<rparr>)"
  by (auto simp: rpmtsiNextElement_def rpmtsNElements_def rpmtsElement_def add.commute)

lemma rpmtsiNextElement_end:
  "length (order (members ts)) \<le> j \<Longrightarrow>
   rpmtsiNextElement (Some ts) (Some \<lparr>tsi_oc = int j\<rparr>) = (None, Some \<lparr>tsi_oc = int j\<rparr>)"
  by (simp add: rpmtsiNextElement_def rpmtsNElements_def)

lemma rpmtsiNext_unfold:
  "rpmtsiNext tsp tsi types =
     (case rpmtsiNextElement tsp tsi of
        (None, tsi') \<Rightarrow> (None, tsi')
      | (Some te, tsi') \<Rightarrow>
          if te_selected types te then (Some te, tsi') else rpmtsiNext tsp tsi' types)"
  unfolding te_selected_def by (rule rpmtsiNext.simps)

lemma rpmtsiNext_at:
  "j \<le> length (order (members ts)) \<Longrightarrow>
   rpmtsiNext (Some ts) (Some \<lparr>tsi_oc = int j\<rparr>) types =
     (case dropWhile (\<lambda>te. \<not> te_selected types te) (drop j (order (members ts))) of
        [] \<Rightarrow> (None, Some \<lparr>tsi_oc = int (length (order (members ts)))\<rparr>)
      | te # rest \<Rightarrow>
          (Some te, Some \<lparr>tsi_oc = int (length (order (members ts)) - length rest)\<rparr>))"
proof (induction "length (order (members ts)) - j" arbitrary: j)
  case 0
  then have j: "j = length (order (members ts))" by simp
  then have le: "length (order (members ts)) \<le> j" by simp
  have "rpmtsiNext (Some ts) (Some \<lparr>tsi_oc = int j\<rparr>) types = (None, Some \<lparr>tsi_oc = int j\<rparr>)"
    by (simp add: rpmtsiNext.simps [of _ "Some \<lparr>tsi_oc = int j\<rparr>"]
        rpmtsiNextElement_end [OF le])
  then show ?case
    by (simp add: j)
next
  case (Suc k)
  then have lt: "j < length (order (members ts))" by simp
  then have d: "drop j (order (members ts)) =
      order (members ts) ! j # drop (Suc j) (order (members ts))"
    by (simp add: Cons_nth_drop_Suc)
  show ?case
  proof (cases "te_selected types (order (members ts) ! j)")
    case True
    with lt d show ?thesis
      by (simp add: rpmtsiNext_unfold [of _ "Some \<lparr>tsi_oc = int j\<rparr>"] rpmtsiNextElement_at
          Suc_diff_Suc Suc_leI diff_diff_cancel)
  next
    case False
    from Suc have "k = length (order (members ts)) - Suc j" "Suc j \<le> length (order (members ts))"
      by simp_all
    from Suc.hyps(1) [OF this] False lt d show ?thesis
      by (simp add: rpmtsiNext_unfold [of _ "Some \<lparr>tsi_oc = int j\<rparr>"] rpmtsiNextElement_at)
  qed
qed

lemma dropWhile_Cons_drop:
  "dropWhile Q xs = y # ys \<Longrightarrow> ys = drop (length xs - length ys) xs \<and> length ys < length xs"
proof (induction xs)
  case Nil
  then show ?case by simp
next
  case (Cons x xs)
  show ?case
  proof (cases "Q x")
    case True
    with Cons have "ys = drop (length xs - length ys) xs \<and> length ys < length xs" by simp
    then show ?thesis by (simp add: Suc_diff_le)
  next
    case False
    with Cons.prems show ?thesis by simp
  qed
qed

lemma filter_dropWhile_not:
  "filter P (dropWhile (\<lambda>x. \<not> P x) xs) = filter P xs"
  by (induction xs) simp_all

lemma rpmtsi_walk_at:
  "j \<le> length (order (members ts)) \<Longrightarrow>
   rpmtsi_walk (Some ts) (Some \<lparr>tsi_oc = int j\<rparr>) types =
     (filter (te_selected types) (drop j (order (members ts))),
      Some \<lparr>tsi_oc = int (length (order (members ts)))\<rparr>)"
proof (induction "length (order (members ts)) - j" arbitrary: j rule: less_induct)
  case less
  let ?ord = "order (members ts)"
  let ?dw = "dropWhile (\<lambda>te. \<not> te_selected types te) (drop j ?ord)"
  have f: "filter (te_selected types) (drop j ?ord) = filter (te_selected types) ?dw"
    by (simp add: filter_dropWhile_not)
  show ?case
  proof (cases ?dw)
    case Nil
    with less.prems f show ?thesis
      by (simp add: rpmtsi_walk.simps [of _ "Some \<lparr>tsi_oc = int j\<rparr>"] rpmtsiNext_at
               del: dropWhile_eq_Nil_conv)
  next
    case (Cons te rest)
    from dropWhile_Cons_drop [OF Cons]
    have r0: "rest = drop (length (drop j ?ord) - length rest) (drop j ?ord)"
      and l0: "length rest < length (drop j ?ord)"
      by blast+
    from l0 have l: "length rest < length ?ord - j" by simp
    then have "j + (length (drop j ?ord) - length rest) = length ?ord - length rest"
      using less.prems by simp
    with r0 have r: "rest = drop (length ?ord - length rest) ?ord"
      by (simp add: add.commute)
    from Cons have sel: "te_selected types te"
      using hd_dropWhile [of "\<lambda>te. \<not> te_selected types te" "drop j ?ord"] by simp
    have "length ?ord - (length ?ord - length rest) < length ?ord - j"
         "length ?ord - length rest \<le> length ?ord"
      using l by simp_all
    from less.hyps [OF this]
    have "rpmtsi_walk (Some ts) (Some \<lparr>tsi_oc = int (length ?ord - length rest)\<rparr>) types =
          (filter (te_selected types) rest, Some \<lparr>tsi_oc = int (length ?ord)\<rparr>)"
      using r by simp
    with Cons less.prems f sel show ?thesis
      by (simp add: rpmtsi_walk.simps [of _ "Some \<lparr>tsi_oc = int j\<rparr>"] rpmtsiNext_at)
  qed
qed

text \<open>C7: over a fixed order, a fresh iterator called with type filter 0 until it
  returns null yields the elements of the order, each once and in index order; with
  a non-zero filter it yields, in the same order, exactly the elements whose type
  mask intersects the filter; and once the walk has ended, every further call (with
  any filter) returns null and leaves the iterator where it is.\<close>

theorem rpmtsi_walk_order:
  "rpmtsi_walk (snd (rpmtsiInit (Some ts))) (Some (fst (rpmtsiInit (Some ts)))) 0
     = (order (members ts), Some \<lparr>tsi_oc = int (length (order (members ts)))\<rparr>) \<and>
   rpmtsi_walk (snd (rpmtsiInit (Some ts))) (Some (fst (rpmtsiInit (Some ts)))) types
     = (filter (\<lambda>te. types = 0 \<or> rpmteType te AND types \<noteq> 0) (order (members ts)),
        Some \<lparr>tsi_oc = int (length (order (members ts)))\<rparr>) \<and>
   rpmtsiNext (snd (rpmtsiInit (Some ts)))
       (snd (rpmtsi_walk (snd (rpmtsiInit (Some ts))) (Some (fst (rpmtsiInit (Some ts)))) types))
       types'
     = (None, snd (rpmtsi_walk (snd (rpmtsiInit (Some ts)))
                     (Some (fst (rpmtsiInit (Some ts)))) types))"
proof -
  let ?l = "rpmtsLink ts"
  have o: "order (members ?l) = order (members ts)"
    by (simp add: rpmtsLink_def)
  have i: "rpmtsiInit (Some ts) = (\<lparr>tsi_oc = int 0\<rparr>, Some ?l)"
    by (simp add: rpmtsiInit_def)
  have w: "rpmtsi_walk (Some ?l) (Some \<lparr>tsi_oc = int 0\<rparr>) ty =
        (filter (te_selected ty) (order (members ts)),
         Some \<lparr>tsi_oc = int (length (order (members ts)))\<rparr>)" for ty
    using rpmtsi_walk_at [of 0 ?l ty] o by simp
  have e: "rpmtsiNext (Some ?l) (Some \<lparr>tsi_oc = int (length (order (members ts)))\<rparr>) types' =
        (None, Some \<lparr>tsi_oc = int (length (order (members ts)))\<rparr>)"
    using rpmtsiNext_at [of "length (order (members ts))" ?l types'] o by simp
  have s0: "te_selected 0 = (\<lambda>te. True)"
    by (simp add: te_selected_def fun_eq_iff)
  have st: "te_selected types = (\<lambda>te. types = 0 \<or> rpmteType te AND types \<noteq> 0)"
    by (simp add: te_selected_def fun_eq_iff)
  show ?thesis
    unfolding i fst_conv snd_conv w e s0 st [symmetric] by simp
qed

theorem rpmtsi_walk_order_witness:
  "fst (rpmtsi_walk (snd (rpmtsiInit (Some (with_order [te1, te2, te3] ts0))))
          (Some (fst (rpmtsiInit (Some (with_order [te1, te2, te3] ts0))))) 0)
     = [te1, te2, te3] \<and>
   fst (rpmtsi_walk (snd (rpmtsiInit (Some (with_order [te1, te2, te3] ts0))))
          (Some (fst (rpmtsiInit (Some (with_order [te1, te2, te3] ts0))))) 1)
     = [te1, te3] \<and>
   fst (rpmtsiNext (snd (rpmtsiInit (Some (with_order [te1, te2, te3] ts0))))
          (snd (rpmtsi_walk (snd (rpmtsiInit (Some (with_order [te1, te2, te3] ts0))))
                  (Some (fst (rpmtsiInit (Some (with_order [te1, te2, te3] ts0))))) 1))
          0)
     = None"
proof -
  let ?ts = "with_order [te1, te2, te3] ts0"
  let ?tsp = "snd (rpmtsiInit (Some ?ts))"
  let ?tsi = "Some (fst (rpmtsiInit (Some ?ts)))"
  have o: "order (members ?ts) = [te1, te2, te3]"
    by (simp add: with_order_def)
  have f: "filter (\<lambda>te. (1 :: rpmElementTypes) = 0 \<or> rpmteType te AND 1 \<noteq> 0) [te1, te2, te3]
           = [te1, te3]"
    by (simp add: rpmteType_def te1_def te2_def te3_def)
  note t = rpmtsi_walk_order [of ?ts 1 0]
  have a: "fst (rpmtsi_walk ?tsp ?tsi 0) = order (members ?ts)"
    using t by simp
  have b: "fst (rpmtsi_walk ?tsp ?tsi 1)
            = filter (\<lambda>te. (1 :: rpmElementTypes) = 0 \<or> rpmteType te AND 1 \<noteq> 0)
                (order (members ?ts))"
    using t by simp
  have c: "fst (rpmtsiNext ?tsp (snd (rpmtsi_walk ?tsp ?tsi 1)) 0) = None"
    using t [THEN conjunct2, THEN conjunct2] by simp
  from a b c show ?thesis
    unfolding o f by simp
qed

subsection \<open>Emptying the set\<close>

lemma rpmtsFree_link:
  "nrefs ts \<ge> 1 \<Longrightarrow> rpmtsFree ex w (rpmtsLink ts) = (w, Some ts)"
  by (simp add: rpmtsFree_def rpmtsLink_def)

lemma rpmtsi_walk_fresh:
  "rpmtsi_walk (Some ts) (Some \<lparr>tsi_oc = 0\<rparr>) types =
     (filter (te_selected types) (order (members ts)),
      Some \<lparr>tsi_oc = int (length (order (members ts)))\<rparr>)"
  using rpmtsi_walk_at [of 0 ts types] by simp

lemma rpmtsCleanProblems_live:
  "nrefs ts \<ge> 1 \<Longrightarrow> rpmtsCleanProblems ex w (Some ts) = (w, Some ts)"
  by (simp add: rpmtsCleanProblems_def rpmtsiInit_def rpmtsi_walk_fresh rpmtsiFree_def
      rpmtsFree_link)

lemma rpmtsClean_live:
  assumes "nrefs ts \<ge> 1"
  shows "rpmtsClean ex w (Some ts) =
     Some (w, Some (ts\<lparr>members := (members ts)
        \<lparr>addedPackages := rpmalFree ex (addedPackages (members ts)),
         rpmlib := rpmdsFree ex (rpmlib (members ts))\<rparr>\<rparr>))"
proof -
  let ?ts2 = "ts\<lparr>members := (members ts)
        \<lparr>addedPackages := rpmalFree ex (addedPackages (members ts)),
         rpmlib := rpmdsFree ex (rpmlib (members ts))\<rparr>\<rparr>"
  have "nrefs ?ts2 \<ge> 1" using assms by simp
  then have "rpmtsCleanProblems ex w (Some ?ts2) = (w, Some ?ts2)"
    by (rule rpmtsCleanProblems_live)
  with assms show ?thesis
    by (simp add: rpmtsClean_def rpmtsiInit_def rpmtsi_walk_fresh rpmtsiFree_def
        rpmtsFree_link)
qed

lemma del_events_emit:
  "del_events (emit e w) =
     del_events w @ (case e of Change RPMTS_EVENT_DEL te \<Rightarrow> [te] | _ \<Rightarrow> [])"
  by (simp add: del_events_def emit_def)

lemma pool_frees_emit:
  "pool_frees (emit e w) = pool_frees w @ (case e of PoolFree p \<Rightarrow> [p] | _ \<Rightarrow> [])"
  by (simp add: pool_frees_def emit_def)

lemma rpmtsEmpty_step_events:
  "del_events (rpmtsEmpty_step ts te w) = del_events w @ (if change ts = None then [] else [te])"
  "pool_frees (rpmtsEmpty_step ts te w) = pool_frees w"
  by (simp_all add: rpmtsEmpty_step_def rpmtsNotifyChange_def del_events_emit pool_frees_emit
      split: option.splits)

lemma fold_rpmtsEmpty_step:
  "del_events (fold (rpmtsEmpty_step ts) es w) =
     del_events w @ (if change ts = None then [] else es) \<and>
   pool_frees (fold (rpmtsEmpty_step ts) es w) = pool_frees w"
  by (induction es arbitrary: w) (simp_all add: rpmtsEmpty_step_events)

lemma rpmtsEmpty_live:
  assumes live: "nrefs ts \<ge> 1"
  shows "rpmtsEmpty ex w (Some ts) =
     Some (case pool (members ts) of
             None \<Rightarrow> fold (rpmtsEmpty_step ts) (order (members ts)) w
           | Some p \<Rightarrow> emit (PoolFree p) (fold (rpmtsEmpty_step ts) (order (members ts)) w),
           Some (ts\<lparr>members := (members ts)
              \<lparr>addedPackages := rpmalFree ex (addedPackages (members ts)),
               rpmlib := rpmdsFree ex (rpmlib (members ts)),
               order := [],
               pool := rpmstrPoolFree ex (pool (members ts)),
               removedPackages := []\<rparr>\<rparr>))"
proof -
  have s: "rpmtsEmpty_step (ts\<lparr>members := m\<rparr>) = rpmtsEmpty_step ts" for m
    by (simp add: rpmtsEmpty_step_def rpmtsNotifyChange_def fun_eq_iff)
  show ?thesis
    by (cases "pool (members ts)")
       (simp_all add: rpmtsEmpty_def rpmtsClean_live [OF live] Let_def s)
qed

text \<open>C1 (amended): for a live set (reference count at least 1) rpmtsEmpty returns and
  leaves no element in the order. When a change callback is installed, each element
  of the order received exactly one DEL change event, in index order; with no callback
  installed no event is delivered. The set's reference to the string pool does not
  survive the call: rpmtsEmpty itself hands it to rpmstrPoolFree and stores the answer
  (null) in the pool field, so a pool exists again only once rpmtsPool creates one on
  the next demand. The removed-package index is cleared and the reference count is as
  before.\<close>

lemma fold_rpmtsEmpty_step_quiet:
  "change ts = None \<Longrightarrow>
   fold (rpmtsEmpty_step ts) es w = fold (\<lambda>te. emit (TeFree te)) es w"
  by (induction es arbitrary: w) (simp_all add: rpmtsEmpty_step_def rpmtsNotifyChange_def)

lemma rpmtsFree_last:
  assumes "nrefs ts = 1"
  shows "rpmtsFree ex w ts =
     (case rpmtsEmpty ex w (Some ((rpmtsLink (ts\<lparr>nrefs := nrefs ts - 1\<rparr>))\<lparr>change := None\<rparr>)) of
        Some (w1, Some ts1) \<Rightarrow> (case rpmtsCloseDB ex w1 ts1 of (_, w2, _) \<Rightarrow> (w2, None))
      | _ \<Rightarrow> (w, None))"
proof -
  let ?t = "(rpmtsLink (ts\<lparr>nrefs := nrefs ts - 1\<rparr>))\<lparr>change := None\<rparr>"
  have l: "nrefs ?t \<ge> 1" using assms by (simp add: rpmtsLink_def)
  have q: "change ?t = None" by simp
  have m: "order (members ?t) = order (members ts)" "pool (members ?t) = pool (members ts)"
          "rdb ?t = rdb ts"
    by (simp_all add: rpmtsLink_def)
  show ?thesis
    unfolding rpmtsEmpty_live [OF l] fold_rpmtsEmpty_step_quiet [OF q] m
    using assms
    by (cases "pool (members ts)"; cases "rdb ts")
       (simp_all add: rpmtsFree_def rpmtsCloseDB_def Let_def rpmtsLink_def)
qed

theorem rpmtsEmpty_spec:
  assumes live: "nrefs ts \<ge> 1"
  shows "\<exists>w' ts'. rpmtsEmpty ex w (Some ts) = Some (w', Some ts') \<and>
           rpmtsNElements (Some ts') = 0 \<and>
           del_events w' = del_events w @ (if change ts = None then [] else order (members ts)) \<and>
           pool_frees w' = pool_frees w @ (case pool (members ts) of None \<Rightarrow> [] | Some p \<Rightarrow> [p]) \<and>
           pool (members ts') = rpmstrPoolFree ex (pool (members ts)) \<and>
           fst (rpmtsPool ex (Some ts')) =
             (case rpmstrPoolFree ex (pool (members ts)) of
                None \<Rightarrow> Some (rpmstrPoolCreate ex) | Some p \<Rightarrow> Some p) \<and>
           removedPackages (members ts') = [] \<and>
           nrefs ts' = nrefs ts"
proof -
  let ?w2 = "fold (rpmtsEmpty_step ts) (order (members ts)) w"
  let ?w3 = "case pool (members ts) of None \<Rightarrow> ?w2 | Some p \<Rightarrow> emit (PoolFree p) ?w2"
  let ?ts2 = "ts\<lparr>members := (members ts)
              \<lparr>addedPackages := rpmalFree ex (addedPackages (members ts)),
               rpmlib := rpmdsFree ex (rpmlib (members ts)),
               order := [],
               pool := rpmstrPoolFree ex (pool (members ts)),
               removedPackages := []\<rparr>\<rparr>"
  have e: "rpmtsEmpty ex w (Some ts) = Some (?w3, Some ?ts2)"
    by (rule rpmtsEmpty_live [OF live])
  have f: "del_events ?w2 = del_events w @ (if change ts = None then [] else order (members ts))"
          "pool_frees ?w2 = pool_frees w"
    using fold_rpmtsEmpty_step [of ts "order (members ts)" w] by simp_all
  have d: "del_events ?w3 = del_events w @ (if change ts = None then [] else order (members ts))"
    using f(1) by (cases "pool (members ts)") (simp_all add: del_events_emit)
  have p: "pool_frees ?w3 = pool_frees w @ (case pool (members ts) of None \<Rightarrow> [] | Some p \<Rightarrow> [p])"
    using f(2) by (cases "pool (members ts)") (simp_all add: pool_frees_emit)
  have q: "fst (rpmtsPool ex (Some ?ts2)) =
             (case rpmstrPoolFree ex (pool (members ts)) of
                None \<Rightarrow> Some (rpmstrPoolCreate ex) | Some p \<Rightarrow> Some p)"
    by (cases "rpmstrPoolFree ex (pool (members ts))") (simp_all add: rpmtsPool_def)
  have r: "rpmtsNElements (Some ?ts2) = 0" "pool (members ?ts2) = rpmstrPoolFree ex (pool (members ts))"
          "removedPackages (members ?ts2) = []" "nrefs ?ts2 = nrefs ts"
    by (simp_all add: rpmtsNElements_def)
  from e d p q r show ?thesis by blast
qed

theorem rpmtsEmpty_spec_witness:
  "nrefs ts_cb \<ge> 1 \<and>
   (\<exists>w' ts'. rpmtsEmpty extern0 world0 (Some ts_cb) = Some (w', Some ts') \<and>
        rpmtsNElements (Some ts') = 0 \<and>
        del_events w' = [te1, te2] \<and>
        pool_frees w' = [5] \<and>
        pool (members ts') = None \<and>
        fst (rpmtsPool extern0 (Some ts')) = Some 9)"
proof -
  have l: "nrefs ts_cb \<ge> 1"
    by (simp add: ts_cb_def ts_pool_def with_order_def ts0_def)
  have v: "change ts_cb \<noteq> None" "order (members ts_cb) = [te1, te2]"
          "pool (members ts_cb) = Some 5" "del_events world0 = []" "pool_frees world0 = []"
          "rpmstrPoolFree extern0 (Some 5) = None" "rpmstrPoolCreate extern0 = 9"
    by (simp_all add: ts_cb_def ts_pool_def with_order_def ts0_def world0_def extern0_def
        del_events_def pool_frees_def)
  from rpmtsEmpty_spec [OF l, of extern0 world0] l v show ?thesis
    by auto
qed

theorem rpmtsEmpty_pool_counterexample:
  "pool (members ts_pool) = Some 5 \<and> order (members ts_pool) = [te1, te2] \<and>
   pool (members (the (snd (the (rpmtsEmpty extern0 world0 (Some ts_pool)))))) = None \<and>
   pool_frees (fst (the (rpmtsEmpty extern0 world0 (Some ts_pool)))) = [5] \<and>
   del_events (fst (the (rpmtsEmpty extern0 world0 (Some ts_pool)))) = []"
proof -
  have l: "nrefs ts_pool \<ge> 1"
    by (simp add: ts_pool_def with_order_def ts0_def)
  have v: "change ts_pool = None" "order (members ts_pool) = [te1, te2]"
          "pool (members ts_pool) = Some 5" "del_events world0 = []" "pool_frees world0 = []"
          "rpmstrPoolFree extern0 (Some 5) = None"
    by (simp_all add: ts_pool_def with_order_def ts0_def world0_def extern0_def
        del_events_def pool_frees_def)
  show ?thesis
    by (simp add: rpmtsEmpty_live [OF l] v rpmtsEmpty_step_events del_events_emit
        pool_frees_emit)
qed

subsection \<open>Root directory and time\<close>

lemma rpmtsSetRootDir_reject:
  "dir = Some p \<Longrightarrow> p = [] \<or> hd p \<noteq> CHR ''/'' \<Longrightarrow> rpmtsSetRootDir ex (Some ts) dir = (- 1, Some ts)"
  by (cases p) (auto simp: rpmtsSetRootDir_def)

lemma rpmtsSetRootDir_null:
  "rpmtsSetRootDir ex (Some ts) None = (0, Some (ts\<lparr>rootDir := Some ''/''\<rparr>))"
  by (simp add: rpmtsSetRootDir_def)

lemma rpmtsSetRootDir_ok:
  assumes "rpmtsSetRootDir ex tsp dir = (0, tsp')"
  shows "\<exists>ts ts' r. tsp = Some ts \<and> tsp' = Some ts' \<and> rootDir ts' = Some r \<and> r \<noteq> [] \<and>
           last r = CHR ''/'' \<and> (rpmGetPath_keeps_root ex \<longrightarrow> hd r = CHR ''/'') \<and>
           ts' = ts\<lparr>rootDir := Some r\<rparr>"
proof (cases tsp)
  case None
  with assms show ?thesis by (simp add: rpmtsSetRootDir_def)
next
  case (Some ts)
  show ?thesis
  proof (cases dir)
    case None
    with Some assms show ?thesis by (auto simp: rpmtsSetRootDir_def)
  next
    case d: (Some p)
    with Some assms obtain cs where p: "p = CHR ''/'' # cs"
      by (cases p) (auto simp: rpmtsSetRootDir_def split: if_splits)
    let ?r = "rpmGetPath ex p"
    let ?r1 = "if ?r \<noteq> ''/'' then ?r @ ''/'' else ?r"
    from Some d p assms have t: "tsp' = Some (ts\<lparr>rootDir := Some ?r1\<rparr>)"
      by (auto simp: rpmtsSetRootDir_def Let_def)
    have l: "?r1 \<noteq> [] \<and> last ?r1 = CHR ''/''" by simp
    have h: "rpmGetPath_keeps_root ex \<longrightarrow> hd ?r1 = CHR ''/''"
    proof
      assume "rpmGetPath_keeps_root ex"
      then have "?r = [] \<or> hd ?r = CHR ''/''"
        unfolding rpmGetPath_keeps_root_def p by blast
      then show "hd ?r1 = CHR ''/''" by (cases ?r) auto
    qed
    from Some t l h show ?thesis by simp
  qed
qed

text \<open>C8: on a non-null set, rpmtsSetRootDir with a non-null path that is empty or does
  not start with a slash returns -1 and leaves the set, its root directory included,
  as it was; with a null path it returns 0 and the root directory is "/"; and after
  every successful call the root directory is a non-empty string that ends in a slash,
  and starts with one provided rpmGetPath (a collaborator outside this file) keeps
  the leading slash of the absolute path it is given.\<close>

theorem rpmtsSetRootDir_spec:
  "(\<forall>p. p = [] \<or> hd p \<noteq> CHR ''/'' \<longrightarrow>
        rpmtsSetRootDir ex (Some ts) (Some p) = (- 1, Some ts)) \<and>
   rpmtsSetRootDir ex (Some ts) None = (0, Some (ts\<lparr>rootDir := Some ''/''\<rparr>)) \<and>
   (\<forall>dir tsp'. rpmtsSetRootDir ex (Some ts) dir = (0, tsp') \<longrightarrow>
        (\<exists>r. tsp' = Some (ts\<lparr>rootDir := Some r\<rparr>) \<and> r \<noteq> [] \<and> last r = CHR ''/'' \<and>
             (rpmGetPath_keeps_root ex \<longrightarrow> hd r = CHR ''/'')))"
proof (intro conjI allI impI)
  fix p :: string
  assume "p = [] \<or> hd p \<noteq> CHR ''/''"
  then show "rpmtsSetRootDir ex (Some ts) (Some p) = (- 1, Some ts)"
    by (intro rpmtsSetRootDir_reject) simp_all
next
  show "rpmtsSetRootDir ex (Some ts) None = (0, Some (ts\<lparr>rootDir := Some ''/''\<rparr>))"
    by (rule rpmtsSetRootDir_null)
next
  fix dir tsp'
  assume "rpmtsSetRootDir ex (Some ts) dir = (0, tsp')"
  from rpmtsSetRootDir_ok [OF this]
  show "\<exists>r. tsp' = Some (ts\<lparr>rootDir := Some r\<rparr>) \<and> r \<noteq> [] \<and> last r = CHR ''/'' \<and>
             (rpmGetPath_keeps_root ex \<longrightarrow> hd r = CHR ''/'')"
    by auto
qed

theorem rpmtsSetRootDir_spec_witness:
  "rpmGetPath_keeps_root extern0 \<and>
   rpmtsSetRootDir extern0 (Some ts0) (Some ''mnt'') = (- 1, Some ts0) \<and>
   rpmtsSetRootDir extern0 (Some ts0) (Some []) = (- 1, Some ts0) \<and>
   rpmtsSetRootDir extern0 (Some ts0) None = (0, Some (ts0\<lparr>rootDir := Some ''/''\<rparr>)) \<and>
   rpmtsSetRootDir extern0 (Some ts0) (Some ''/mnt/sysroot'')
     = (0, Some (ts0\<lparr>rootDir := Some ''/mnt/sysroot/''\<rparr>)) \<and>
   hd ''/mnt/sysroot/'' = CHR ''/'' \<and> last ''/mnt/sysroot/'' = CHR ''/''"
proof -
  have k: "rpmGetPath_keeps_root extern0"
    by (simp add: rpmGetPath_keeps_root_def extern0_def)
  have m: "rpmtsSetRootDir extern0 (Some ts0) (Some ''/mnt/sysroot'')
     = (0, Some (ts0\<lparr>rootDir := Some ''/mnt/sysroot/''\<rparr>))"
    by (simp add: rpmtsSetRootDir_def extern0_def)
  note t = rpmtsSetRootDir_spec [of extern0 ts0]
  from t have a: "rpmtsSetRootDir extern0 (Some ts0) (Some ''mnt'') = (- 1, Some ts0)"
    by simp
  from t have b: "rpmtsSetRootDir extern0 (Some ts0) (Some []) = (- 1, Some ts0)"
    by simp
  from t have c: "rpmtsSetRootDir extern0 (Some ts0) None = (0, Some (ts0\<lparr>rootDir := Some ''/''\<rparr>))"
    by simp
  from k m a b c show ?thesis by simp
qed

lemma rpmtsGetTime_calls_unset:
  "overrideTime ts = - 1 \<Longrightarrow> rpmtsGetTime_calls nows ts step = (map ucast nows, ts)"
  by (induction nows) (simp_all add: rpmtsGetTime_def)

lemma rpmtsGetTime_calls_override:
  "\<forall>k<length nows. overrideTime ts + of_nat k * step \<noteq> - 1 \<Longrightarrow>
   rpmtsGetTime_calls nows ts step =
     (map (\<lambda>k. ucast (overrideTime ts + of_nat k * step)) [0..<length nows],
      ts\<lparr>overrideTime := overrideTime ts + of_nat (length nows) * step\<rparr>)"
proof (induction nows arbitrary: ts)
  case Nil
  then show ?case by simp
next
  case (Cons now nows)
  from Cons.prems have o: "overrideTime ts \<noteq> - 1" by force
  let ?ts1 = "ts\<lparr>overrideTime := overrideTime ts + step\<rparr>"
  have "\<forall>k<length nows. overrideTime ?ts1 + of_nat k * step \<noteq> - 1"
  proof (intro allI impI)
    fix k assume "k < length nows"
    then have "Suc k < length (now # nows)" by simp
    with Cons.prems have "overrideTime ts + of_nat (Suc k) * step \<noteq> - 1" by blast
    then show "overrideTime ?ts1 + of_nat k * step \<noteq> - 1"
      by (simp add: algebra_simps)
  qed
  from Cons.IH [OF this]
  have i: "rpmtsGetTime_calls nows ?ts1 step =
     (map (\<lambda>k. ucast (overrideTime ts + step + of_nat k * step)) [0..<length nows],
      ts\<lparr>overrideTime := overrideTime ts + step + of_nat (length nows) * step\<rparr>)"
    by simp
  have m: "map (\<lambda>k. ucast (overrideTime ts + of_nat k * step) :: rpm_time_t) [0..<length (now # nows)] =
           ucast (overrideTime ts) #
           map (\<lambda>k. ucast (overrideTime ts + step + of_nat k * step)) [0..<length nows]"
    by (simp add: upt_rec [of 0] map_Suc_upt [symmetric] algebra_simps del: upt_Suc)
  from o i m show ?case
    by (simp add: rpmtsGetTime_def algebra_simps del: upt_Suc)
qed

lemma rpmtsCreate_time:
  "overrideTime (rpmtsCreate sde now) = (case sde of Some v \<Rightarrow> v | None \<Rightarrow> - 1) \<and>
   tid (rpmtsCreate sde now) =
     (case sde of Some v \<Rightarrow> if v = - 1 then ucast now else ucast v | None \<Rightarrow> ucast now)"
  by (cases sde) (simp_all add: rpmtsCreate_def rpmtsGetTime_def rpmtsLink_def Let_def)

lemma ucast_time_mono:
  fixes n1 n2 :: time_t
  assumes "uint n1 \<le> uint n2" "uint n2 < 2 ^ 32"
  shows "(ucast n1 :: rpm_time_t) \<le> ucast n2"
proof -
  have "uint (ucast n1 :: rpm_time_t) = uint n1" "uint (ucast n2 :: rpm_time_t) = uint n2"
    using assms by (simp_all add: unsigned_ucast_eq take_bit_int_eq_self)
  with assms(1) show ?thesis by (simp add: word_le_def)
qed

text \<open>C9 (amended): as long as the override time is not -1, the value that stands for
  "no override", each call of rpmtsGetTime returns the current override time (as the
  32-bit rpm_time_t) and advances it by the step: n calls return t, t + step, ...,
  t + (n - 1) * step when none of these is -1, so a set created with
  SOURCE_DATE_EPOCH=1000000000 returns 1000000000, 1000000003, 1000000006 for step 3.
  When the override time is -1 (the variable unset, set to -1, or -1 reached by
  stepping) every call returns the wall-clock reading of that call and advances
  nothing, so two successive calls return non-decreasing values when the two readings
  are non-decreasing (and below 2^32).\<close>

theorem rpmtsGetTime_progression:
  "((\<forall>k<length nows. overrideTime ts + of_nat k * step \<noteq> - 1) \<longrightarrow>
      rpmtsGetTime_calls nows ts step =
        (map (\<lambda>k. ucast (overrideTime ts + of_nat k * step)) [0..<length nows],
         ts\<lparr>overrideTime := overrideTime ts + of_nat (length nows) * step\<rparr>)) \<and>
   (overrideTime ts = - 1 \<longrightarrow> rpmtsGetTime_calls nows ts step = (map ucast nows, ts)) \<and>
   overrideTime (rpmtsCreate sde now) = (case sde of Some v \<Rightarrow> v | None \<Rightarrow> - 1) \<and>
   fst (rpmtsGetTime_calls [n1, n2, n3] (rpmtsCreate (Some 1000000000) now) 3)
     = [1000000000, 1000000003, 1000000006] \<and>
   (uint n1 \<le> uint n2 \<and> uint n2 < 2 ^ 32 \<longrightarrow>
      (\<exists>r1 r2. fst (rpmtsGetTime_calls [n1, n2] (rpmtsCreate None now) step) = [r1, r2] \<and>
          r1 = ucast n1 \<and> r2 = ucast n2 \<and> r1 \<le> r2))"
proof -
  have c: "overrideTime (rpmtsCreate sde now) = (case sde of Some v \<Rightarrow> v | None \<Rightarrow> - 1)" for sde
    using rpmtsCreate_time by blast
  have d: "fst (rpmtsGetTime_calls [n1, n2, n3] (rpmtsCreate (Some 1000000000) now) 3)
     = [1000000000, 1000000003, 1000000006]"
    by (simp add: rpmtsGetTime_def rpmtsCreate_def rpmtsLink_def Let_def)
  have e: "uint n1 \<le> uint n2 \<and> uint n2 < 2 ^ 32 \<longrightarrow>
      (\<exists>r1 r2. fst (rpmtsGetTime_calls [n1, n2] (rpmtsCreate None now) step) = [r1, r2] \<and>
          r1 = ucast n1 \<and> r2 = ucast n2 \<and> r1 \<le> r2)"
  proof
    assume u: "uint n1 \<le> uint n2 \<and> uint n2 < 2 ^ 32"
    have "overrideTime (rpmtsCreate None now) = - 1"
      using c [of None] by simp
    then have "rpmtsGetTime_calls [n1, n2] (rpmtsCreate None now) step =
               (map ucast [n1, n2], rpmtsCreate None now)"
      by (rule rpmtsGetTime_calls_unset)
    with u show "\<exists>r1 r2. fst (rpmtsGetTime_calls [n1, n2] (rpmtsCreate None now) step) = [r1, r2] \<and>
          r1 = ucast n1 \<and> r2 = ucast n2 \<and> r1 \<le> r2"
      by (simp add: ucast_time_mono)
  qed
  from c d e show ?thesis
    by (simp add: rpmtsGetTime_calls_unset rpmtsGetTime_calls_override)
qed

theorem rpmtsGetTime_progression_witness:
  "(5 :: time_t) \<noteq> - 1 \<and> (12 :: time_t) \<noteq> - 1 \<and> (19 :: time_t) \<noteq> - 1 \<and>
   fst (rpmtsGetTime_calls [0, 0, 0] (rpmtsCreate (Some 5) 0) 7) = [5, 12, 19] \<and>
   overrideTime (snd (rpmtsGetTime_calls [0, 0, 0] (rpmtsCreate (Some 5) 0) 7)) = 26 \<and>
   overrideTime (rpmtsCreate None 1700000000) = - 1 \<and>
   uint (1700000000 :: time_t) \<le> uint (1700000009 :: time_t) \<and>
   uint (1700000009 :: time_t) < 2 ^ 32 \<and>
   fst (rpmtsGetTime_calls [1700000000, 1700000009] (rpmtsCreate None 1700000000) 3)
     = [1700000000, 1700000009]"
proof -
  let ?ts = "rpmtsCreate (Some 5) 0"
  have o: "overrideTime ?ts = 5"
    by (simp add: rpmtsCreate_def rpmtsGetTime_def rpmtsLink_def Let_def)
  have h: "\<forall>k<length [0, 0, 0 :: time_t]. overrideTime ?ts + of_nat k * 7 \<noteq> - 1"
    by (simp add: o less_Suc_eq numeral_3_eq_3)
  have u: "uint (1700000000 :: time_t) \<le> uint (1700000009 :: time_t) \<and>
           uint (1700000009 :: time_t) < 2 ^ 32"
    by simp
  note t = rpmtsGetTime_progression [of "[0, 0, 0]" ?ts 7 None 1700000000 1700000000 1700000009 0]
  from t h have a: "rpmtsGetTime_calls [0, 0, 0] ?ts 7 =
        (map (\<lambda>k. ucast (overrideTime ?ts + of_nat k * 7)) [0..<length [0, 0, 0 :: time_t]],
         ?ts\<lparr>overrideTime := overrideTime ?ts + of_nat (length [0, 0, 0 :: time_t]) * 7\<rparr>)"
    by blast
  from t have b: "overrideTime (rpmtsCreate None 1700000000) = - 1"
    by simp
  have c: "fst (rpmtsGetTime_calls [1700000000, 1700000009] (rpmtsCreate None 1700000000) 3)
     = [1700000000, 1700000009]"
    by (simp add: rpmtsGetTime_def rpmtsCreate_def rpmtsLink_def Let_def)
  from a have a1: "fst (rpmtsGetTime_calls [0, 0, 0] ?ts 7) = [5, 12, 19]"
    by (simp add: o upt_rec)
  from a have a2: "overrideTime (snd (rpmtsGetTime_calls [0, 0, 0] ?ts 7)) = 26"
    by (simp add: o)
  from a1 a2 b u c show ?thesis by simp
qed

theorem rpmtsGetTime_sentinel_counterexample:
  "overrideTime (rpmtsCreate (Some (- 1)) 1700000000) = - 1 \<and>
   fst (rpmtsGetTime_calls [1700000000, 1700000001, 1700000002]
          (rpmtsCreate (Some (- 1)) 1700000000) 3)
     = [1700000000, 1700000001, 1700000002] \<and>
   fst (rpmtsGetTime_calls [1700000000, 1700000001, 1700000002]
          (rpmtsCreate (Some (- 4)) 1700000000) 3)
     = [4294967292, 1700000001, 1700000002]"
  by (simp add: rpmtsGetTime_def rpmtsCreate_def rpmtsLink_def Let_def)

subsection \<open>Public keys\<close>

lemma force_keyring_load_loaded:
  "keyring ts \<noteq> None \<Longrightarrow> force_keyring_load ex w ts = (w, Some ts)"
  by (cases "keyring ts")
     (simp_all add: force_keyring_load_def Let_def rpmtsGetKeyring_def rpmtsSetVSFlags_def
        rpmtsVSFlags_def)

lemma rpmPubkeyMerge_self: "rpmPubkeyMerge k k = (RPMRC_OK, None)"
  by (simp add: rpmPubkeyMerge_def)

lemma rpmPubkeyMerge_merged:
  assumes "rpmPubkeyMerge old new = (RPMRC_OK, Some merged)"
  shows "fingerprint merged = fingerprint new \<and> rpmPubkeyMerge merged new = (RPMRC_OK, None)"
proof -
  let ?fresh = "filter (\<lambda>m. m \<notin> set (material old)) (material new)"
  from assms have f: "fingerprint old = fingerprint new"
    by (auto simp: rpmPubkeyMerge_def Let_def split: if_splits)
  with assms have m: "merged = old\<lparr>material := material old @ remdups ?fresh\<rparr>"
    by (auto simp: rpmPubkeyMerge_def Let_def split: if_splits)
  have "filter (\<lambda>x. x \<notin> set (material old @ remdups ?fresh)) (material new) = []"
    by (auto simp: filter_empty_conv)
  with f m show ?thesis
    by (simp add: rpmPubkeyMerge_def)
qed

lemma rpmPubkeyMerge_ok_fingerprint:
  "rpmPubkeyMerge old new = (RPMRC_OK, r) \<Longrightarrow> fingerprint old = fingerprint new"
  by (auto simp: rpmPubkeyMerge_def Let_def split: if_splits)

lemma import_store_ok:
  assumes s: "import_store ex w ts k have_old = Some (RPMRC_OK, w', ts')"
      and n: "\<not> have_old \<Longrightarrow> rpmKeyringLookupKey (keyring ts) k = None"
  shows "rpmKeyringLookupKey (keyring ts') k = Some k"
proof (cases "keyring ts")
  case None
  with s show ?thesis
    by (simp add: import_store_def rpmKeyringModify_def)
next
  case (Some m)
  show ?thesis
  proof (cases have_old)
    case True
    with Some s have "keyring ts' = Some (m(fingerprint k \<mapsto> k))"
      by (cases "keystore ts") (auto simp: import_store_def rpmKeyringModify_def)
    then show ?thesis by (simp add: rpmKeyringLookupKey_def)
  next
    case False
    with n Some have "m (fingerprint k) = None"
      by (simp add: rpmKeyringLookupKey_def)
    with False Some s have "keyring ts' = Some (m(fingerprint k \<mapsto> k))"
      by (cases "keystore ts") (auto simp: import_store_def rpmKeyringModify_def)
    then show ?thesis by (simp add: rpmKeyringLookupKey_def)
  qed
qed

lemma import_merge_ok:
  assumes "import_merge ex w ts pkt = Some (RPMRC_OK, w', ts')"
  shows "\<exists>key stored. rpmPubkeyNew ex pkt = Some key \<and>
           rpmKeyringLookupKey (keyring ts') key = Some stored \<and>
           rpmPubkeyMerge stored key = (RPMRC_OK, None)"
proof -
  from assms obtain key where k: "rpmPubkeyNew ex pkt = Some key"
    by (cases "rpmPubkeyNew ex pkt") (auto simp: import_merge_def)
  show ?thesis
  proof (cases "rpmKeyringLookupKey (keyring ts) key")
    case None
    with assms k have "import_store ex w ts key False = Some (RPMRC_OK, w', ts')"
      by (simp add: import_merge_def)
    from import_store_ok [OF this] None
    have "rpmKeyringLookupKey (keyring ts') key = Some key" by simp
    with k show ?thesis by (auto simp: rpmPubkeyMerge_self)
  next
    case (Some old)
    obtain mrc merged where mg: "rpmPubkeyMerge old key = (mrc, merged)"
      by (cases "rpmPubkeyMerge old key") auto
    with assms k Some have ok: "mrc = RPMRC_OK"
      by (auto simp: import_merge_def split: if_splits)
    show ?thesis
    proof (cases merged)
      case None
      with assms k Some mg ok have "ts' = ts"
        by (simp add: import_merge_def)
      with k Some mg ok None show ?thesis by auto
    next
      case (Some mk)
      from mg ok Some have m: "rpmPubkeyMerge old key = (RPMRC_OK, Some mk)" by simp
      from assms k \<open>rpmKeyringLookupKey (keyring ts) key = Some old\<close> m
      have "import_store ex w ts mk True = Some (RPMRC_OK, w', ts')"
        by (simp add: import_merge_def)
      from import_store_ok [OF this]
      have "rpmKeyringLookupKey (keyring ts') mk = Some mk" by simp
      with rpmPubkeyMerge_merged [OF m]
      have "rpmKeyringLookupKey (keyring ts') key = Some mk \<and>
            rpmPubkeyMerge mk key = (RPMRC_OK, None)"
        by (cases "keyring ts'") (simp_all add: rpmKeyringLookupKey_def)
      with k show ?thesis by auto
    qed
  qed
qed

lemma import_merge_again:
  assumes "rpmPubkeyNew ex pkt = Some key"
      and "rpmKeyringLookupKey (keyring ts) key = Some stored"
      and "rpmPubkeyMerge stored key = (RPMRC_OK, None)"
  shows "import_merge ex w ts pkt = Some (RPMRC_OK, w, ts)"
  using assms by (simp add: import_merge_def)

lemma keystore_writes_Log [simp]: "keystore_writes (emit (Log l) w) = keystore_writes w"
  by (simp add: keystore_writes_def emit_def)

text \<open>C3: after a successful import of a key packet, looking the key of that packet up
  in the set's keyring (by its fingerprint) finds a key; and a second import of the
  same packet returns success, leaves the set and its keyring exactly as they were
  (no merged key is produced) and makes no keystore write (import_key is not called
  again).\<close>

theorem rpmtxnImportPubkey_again:
  assumes first: "rpmtxnImportPubkey ex w ts (Some txn) pkt = Some (RPMRC_OK, w1, ts1)"
  shows "(\<exists>key. rpmPubkeyNew ex pkt = Some key \<and>
              rpmKeyringLookupKey (keyring ts1) key \<noteq> None) \<and>
         (\<exists>w2. rpmtxnImportPubkey ex w1 ts1 (Some txn') pkt = Some (RPMRC_OK, w2, ts1) \<and>
               keystore_writes w2 = keystore_writes w1)"
proof -
  obtain lrc lints where l: "pgpPubKeyLint ex pkt = (lrc, lints)"
    by (cases "pgpPubKeyLint ex pkt") auto
  with first have lok: "lrc = RPMRC_OK"
    by (auto simp: rpmtxnImportPubkey_def split: if_splits)
  let ?wl = "\<lambda>v. case lints of None \<Rightarrow> v
                   | Some l \<Rightarrow> if rpmIsNormal ex then emit (Log l) v else v"
  obtain wa tsa where f: "force_keyring_load ex (?wl w) ts = (wa, tsa)"
    by (cases "force_keyring_load ex (?wl w) ts") auto
  with first l lok obtain ts2 where t2: "tsa = Some ts2"
    by (cases tsa) (auto simp: rpmtxnImportPubkey_def Let_def)
  with first l lok f have m: "import_merge ex wa ts2 pkt = Some (RPMRC_OK, w1, ts1)"
    by (simp add: rpmtxnImportPubkey_def Let_def)
  from import_merge_ok [OF m] obtain key stored where
    k: "rpmPubkeyNew ex pkt = Some key"
    and s: "rpmKeyringLookupKey (keyring ts1) key = Some stored"
    and g: "rpmPubkeyMerge stored key = (RPMRC_OK, None)"
    by blast
  from s have kr: "keyring ts1 \<noteq> None"
    by (cases "keyring ts1") (simp_all add: rpmKeyringLookupKey_def)
  have "rpmtxnImportPubkey ex w1 ts1 (Some txn') pkt = Some (RPMRC_OK, ?wl w1, ts1)"
    using l lok
    by (simp add: rpmtxnImportPubkey_def Let_def force_keyring_load_loaded [OF kr]
        import_merge_again [OF k s g])
  moreover have "keystore_writes (?wl w1) = keystore_writes w1"
    by (cases lints) simp_all
  ultimately show ?thesis
    using k s by auto
qed

lemma pkt0: "rpmPubkeyNew extern0 [65, 7, 2] = Some key0"
  by (simp add: extern0_def key0_def) code_simp

theorem rpmtxnImportPubkey_again_witness:
  "rpmtxnImportPubkey extern0 world0 ts_keys (Some txn0) [65, 7, 2]
     = Some (RPMRC_OK, emit (KeystoreImport key0 0) world0,
             ts_keys\<lparr>keyring := Some [''A'' \<mapsto> key0]\<rparr>) \<and>
   rpmPubkeyNew extern0 [65, 7, 2] = Some key0 \<and>
   rpmKeyringLookupKey (keyring (ts_keys\<lparr>keyring := Some [''A'' \<mapsto> key0]\<rparr>)) key0 = Some key0 \<and>
   rpmtxnImportPubkey extern0 (emit (KeystoreImport key0 0) world0)
       (ts_keys\<lparr>keyring := Some [''A'' \<mapsto> key0]\<rparr>) (Some txn0) [65, 7, 2]
     = Some (RPMRC_OK, emit (KeystoreImport key0 0) world0,
             ts_keys\<lparr>keyring := Some [''A'' \<mapsto> key0]\<rparr>) \<and>
   keystore_writes (emit (KeystoreImport key0 0) world0) = [KeystoreImport key0 0]"
proof -
  let ?w1 = "emit (KeystoreImport key0 0) world0"
  let ?ts1 = "ts_keys\<lparr>keyring := Some [''A'' \<mapsto> key0]\<rparr>"
  have kr: "keyring ts_keys \<noteq> None"
    by (simp add: ts_keys_def)
  have l: "pgpPubKeyLint extern0 [65, 7, 2] = (RPMRC_OK, None)"
    by (simp add: extern0_def)
  have v: "keyring ts_keys = Some Map.empty" "keystore ts_keys = Some keystore_rpmdb"
          "import_key extern0 keystore_rpmdb key0 0 = RPMRC_OK" "fingerprint key0 = ''A''"
    by (simp_all add: ts_keys_def extern0_def key0_def)
  have first: "rpmtxnImportPubkey extern0 world0 ts_keys (Some txn0) [65, 7, 2]
     = Some (RPMRC_OK, ?w1, ?ts1)"
    by (simp add: rpmtxnImportPubkey_def l force_keyring_load_loaded [OF kr] import_merge_def
        pkt0 import_store_def rpmKeyringLookupKey_def rpmKeyringModify_def v)
  from rpmtxnImportPubkey_again [OF first, of txn0]
  obtain w2 where
    a: "rpmtxnImportPubkey extern0 ?w1 ?ts1 (Some txn0) [65, 7, 2] = Some (RPMRC_OK, w2, ?ts1)"
    and b: "keystore_writes w2 = keystore_writes ?w1"
    and c: "\<exists>key. rpmPubkeyNew extern0 [65, 7, 2] = Some key \<and>
              rpmKeyringLookupKey (keyring ?ts1) key \<noteq> None"
    by blast
  have kr1: "keyring ?ts1 \<noteq> None" by simp
  have k: "rpmKeyringLookupKey (keyring ?ts1) key0 = Some key0"
    by (simp add: rpmKeyringLookupKey_def v)
  have "rpmtxnImportPubkey extern0 ?w1 ?ts1 (Some txn0) [65, 7, 2] = Some (RPMRC_OK, ?w1, ?ts1)"
    by (simp add: rpmtxnImportPubkey_def l force_keyring_load_loaded [OF kr1]
        import_merge_again [OF pkt0 k rpmPubkeyMerge_self])
  with a have w: "w2 = ?w1" by simp
  have ws: "keystore_writes ?w1 = [KeystoreImport key0 0]"
    by (simp add: keystore_writes_def emit_def world0_def)
  from first a w k ws pkt0 show ?thesis by simp
qed

lemma rpmtxnDeletePubkey_always_ok:
  assumes "rpmtxnDeletePubkey ex w ts (Some txn) key = Some r"
  shows "fst r = RPMRC_OK"
proof -
  obtain w1 tso where f: "force_keyring_load ex w ts = (w1, tso)"
    by (cases "force_keyring_load ex w ts") auto
  with assms obtain ts1 where t: "tso = Some ts1"
    by (cases tso) (auto simp: rpmtxnDeletePubkey_def)
  show ?thesis
  proof (cases "rpmtsFlags (Some ts1) AND RPMTRANS_FLAG_TEST \<noteq> 0")
    case True
    with assms f t show ?thesis
      by (auto simp: rpmtxnDeletePubkey_def)
  next
    case False
    with assms f t show ?thesis
      by (cases "keystore ts1") (auto simp: rpmtxnDeletePubkey_def Let_def)
  qed
qed

text \<open>C2: rpmtxnDeletePubkey does not hand on the keystore's return code. With a
  non-null handle, the TEST flag clear and a keystore that answers RPMRC_FAIL to
  delete_key, the keystore is called and the function still returns RPMRC_OK: the
  return code is assigned RPMRC_OK once more after the branch on the test flag. The
  specification asks for the keystore's return code here.\<close>

theorem rpmtxnDeletePubkey_masks_failure:
  "rpmtsFlags (Some ts_keys) AND RPMTRANS_FLAG_TEST = 0 \<and>
   delete_key extern0 keystore_rpmdb key0 = RPMRC_FAIL \<and>
   rpmtxnDeletePubkey extern0 world0 ts_keys (Some txn0) key0
     = Some (RPMRC_OK, emit (KeystoreDelete key0) world0, ts_keys)"
proof -
  have kr: "keyring ts_keys \<noteq> None"
    by (simp add: ts_keys_def)
  have f: "rpmtsFlags (Some ts_keys) AND RPMTRANS_FLAG_TEST = 0"
    by (simp add: rpmtsFlags_def ts_keys_def ts0_def)
  have k: "keystore ts_keys = Some keystore_rpmdb"
    by (simp add: ts_keys_def)
  have d: "delete_key extern0 keystore_rpmdb key0 = RPMRC_FAIL"
    by (simp add: extern0_def)
  from f k d show ?thesis
    by (simp add: rpmtxnDeletePubkey_def force_keyring_load_loaded [OF kr])
qed

end
